theory Spec2Isabelle
  imports Main "HOL-Library.Sublist"
begin

section \<open>JavaScript values shared by the three generators\<close>

text \<open>
  Strings are modelled as \<open>string\<close>: one \<open>char\<close> per code unit, restricted to code
  units below 256.  A thrown value is either an \<open>Error\<close> object, whose \<open>message\<close> is
  read, or any other value, which the handlers turn into text with \<open>String(e)\<close>; the model
  keeps that text.
\<close>

datatype thrown = Error string | NonError string

text \<open>\<open>e instanceof Error ? e.message : String(e)\<close>\<close>

fun message_of :: "thrown \<Rightarrow> string" where
  "message_of (Error m) = m"
| "message_of (NonError s) = s"

text \<open>A promise that has settled.\<close>

datatype 'a settled = Fulfilled 'a | Rejected thrown

text \<open>
  A request of the environment settles at a moment of the event loop's logical time, with
  an outcome.  \<open>Promise.all\<close> rejects as soon as one of its inputs rejects, with that
  input's reason (the earliest one; the first in array order among equals), and fulfils
  once every input has fulfilled, with the values in array order.
\<close>

type_synonym 'a timed = "nat \<times> 'a settled"

fun is_rejected :: "'a timed \<Rightarrow> bool" where
  "is_rejected (t, Rejected e) = True"
| "is_rejected (t, Fulfilled v) = False"

fun first_rejection :: "'a timed list \<Rightarrow> (nat \<times> thrown) option" where
  "first_rejection [] = None"
| "first_rejection ((t, Fulfilled v) # ps) = first_rejection ps"
| "first_rejection ((t, Rejected e) # ps) =
     (case first_rejection ps of
        None \<Rightarrow> Some (t, e)
      | Some (t', e') \<Rightarrow> if t' < t then Some (t', e') else Some (t, e))"

fun fulfilled_values :: "'a timed list \<Rightarrow> 'a list" where
  "fulfilled_values [] = []"
| "fulfilled_values ((t, Fulfilled v) # ps) = v # fulfilled_values ps"
| "fulfilled_values ((t, Rejected e) # ps) = fulfilled_values ps"

definition promise_all :: "'a timed list \<Rightarrow> ('a list) timed" where
  "promise_all ps =
     (case first_rejection ps of
        Some (t, e) \<Rightarrow> (t, Rejected e)
      | None \<Rightarrow> (fold max (map fst ps) 0, Fulfilled (fulfilled_values ps)))"

text \<open>The whitespace that \<open>String.prototype.trim\<close> removes and that \<open>\s\<close> matches.\<close>

definition is_space :: "char \<Rightarrow> bool" where
  "is_space c = (of_char c \<in> {9, 10, 11, 12, 13, 32, 160 :: nat})"

definition trim :: "string \<Rightarrow> string" where
  "trim s = rev (dropWhile is_space (rev (dropWhile is_space s)))"

text \<open>\<open>!s\<close> for a string or an absent value: the empty string and \<open>undefined\<close> are falsy.\<close>

fun falsy :: "string option \<Rightarrow> bool" where
  "falsy None = True"
| "falsy (Some s) = (s = [])"

text \<open>Decimal text of a number, as a template literal inserts it.\<close>

definition digit_char :: "nat \<Rightarrow> char" where
  "digit_char d = char_of (48 + d)"

fun show_nat :: "nat \<Rightarrow> string" where
  "show_nat n = (if n < 10 then [digit_char n] else show_nat (n div 10) @ [digit_char (n mod 10)])"

declare show_nat.simps [simp del]

section \<open>Responses of the generative service\<close>

record inline_data =
  mimeType :: string
  data :: string

record part =
  inlineData :: "inline_data option"

record content =
  parts :: "part list"

record candidate =
  content :: "content option"

record response =
  candidates :: "candidate list option"

text \<open>\<open>response.candidates?.[0]?.content?.parts?.[0]\<close>\<close>

definition first_part :: "response \<Rightarrow> part option" where
  "first_part r =
     (case candidates r of
        None \<Rightarrow> None
      | Some [] \<Rightarrow> None
      | Some (c # cs) \<Rightarrow>
          (case content c of
             None \<Rightarrow> None
           | Some ct \<Rightarrow> (case parts ct of [] \<Rightarrow> None | p # ps \<Rightarrow> Some p)))"

text \<open>What the handlers do to the outside world, in the order they do it.  The model
  name and the prompt text of a request are kept; \<open>Sleep\<close> is the \<open>setTimeout\<close>
  wait in milliseconds and \<open>ReadFile\<close> the local \<open>FileReader\<close>: neither is a
  network call.\<close>

record request =
  model :: string
  contents :: string

record video_request =
  video_model :: string
  video_prompt :: string
  imageBytes :: string
  imageMimeType :: string

datatype event =
    GenerateContent request
  | GenerateVideos video_request
  | GetVideosOperation
  | Fetch string
  | Sleep nat
  | ReadFile

fun is_network_call :: "event \<Rightarrow> bool" where
  "is_network_call (GenerateContent r) = True"
| "is_network_call (GenerateVideos r) = True"
| "is_network_call GetVideosOperation = True"
| "is_network_call (Fetch u) = True"
| "is_network_call (Sleep ms) = False"
| "is_network_call ReadFile = False"

definition network_calls :: "event list \<Rightarrow> nat" where
  "network_calls evs = length (filter is_network_call evs)"

text \<open>What a run of a handler leaves: the component's state and what it did.\<close>

record 'st run =
  final :: 'st
  log :: "event list"

section \<open>ImageGenerator\<close>

record ui_state =
  isLoading :: bool
  error :: "string option"

record prompt_state = ui_state +
  prompt :: string

record image_state = prompt_state +
  imageUrls :: "string list"

definition image_url :: "response \<Rightarrow> string option" where
  "image_url r =
     (case first_part r of
        None \<Rightarrow> None
      | Some p \<Rightarrow>
          (case inlineData p of
             None \<Rightarrow> None
           | Some d \<Rightarrow> Some (''data:'' @ mimeType d @ '';base64,'' @ data d)))"

definition themed_image_prompt :: "string \<Rightarrow> string" where
  "themed_image_prompt p =
     ''A cinematic, luxurious, high-energy photograph of '' @ p @
     '', embodying wealth and power, Wolf of Wall Street style.''"

definition partial_notice :: "nat \<Rightarrow> string" where
  "partial_notice n =
     ''Successfully generated '' @ show_nat n @
     '' out of 5 images. Some generations may have been blocked.''"

definition no_images_notice :: "string" where
  "no_images_notice =
     ''Failed to generate any images. The model may have returned an empty response or been blocked.''"

definition no_key_notice :: "string" where
  "no_key_notice = ''API key is not configured. Please set the API_KEY environment variable.''"

text \<open>The aggregation of lines 126 to 142: the URLs of the responses that carry a payload,
  shown when there is at least one, with a notice when there are fewer than five.\<close>

definition aggregate_images :: "response list \<Rightarrow> image_state \<Rightarrow> image_state" where
  "aggregate_images responses st =
     (let urls = List.map_filter image_url responses in
      if length urls > 0 then
        (let st1 = st\<lparr>imageUrls := urls\<rparr> in
         if length urls < 5 then st1\<lparr>error := Some (partial_notice (length urls))\<rparr> else st1)
      else st\<lparr>error := Some no_images_notice\<rparr>)"

text \<open>
  \<open>handleGenerateImage\<close>.  \<open>api_key\<close> is \<open>process.env.API_KEY\<close>; \<open>env i\<close> is when and
  how the \<open>i\<close>-th of the five requests settles.  The result also gives the moment at
  which the handler has produced its result.
\<close>

definition handleGenerateImage ::
  "string option \<Rightarrow> (nat \<Rightarrow> response timed) \<Rightarrow> image_state \<Rightarrow> image_state run \<times> nat" where
  "handleGenerateImage api_key env st =
     (if trim (prompt st) = [] then
        (\<lparr>final = st\<lparr>error := Some ''Please enter a prompt to generate an image.''\<rparr>,
          log = []\<rparr>, 0)
      else if falsy api_key then
        (\<lparr>final = st\<lparr>error := Some no_key_notice\<rparr>, log = []\<rparr>, 0)
      else
        (let st1 = st\<lparr>isLoading := True, error := None, imageUrls := []\<rparr>;
             reqs = map (\<lambda>i. GenerateContent \<lparr>model = ''gemini-2.5-flash-image'',
                                contents = themed_image_prompt (prompt st)\<rparr>) [0..<5];
             (t, outcome) = promise_all (map env [0..<5]);
             st2 = (case outcome of
                      Fulfilled responses \<Rightarrow> aggregate_images responses st1
                    | Rejected e \<Rightarrow>
                        st1\<lparr>error := Some (''An error occurred: '' @ message_of e)\<rparr>)
         in (\<lparr>final = st2\<lparr>isLoading := False\<rparr>, log = reqs\<rparr>, t)))"

section \<open>Regular expressions of SpeechGenerator\<close>

text \<open>
  The component's regular expressions are sequences of single characters, character
  classes, greedy and lazy repetitions of a class, and capture groups.  An expression is
  a list of items; \<open>Mark\<close> stands at the opening and at the closing parenthesis of a
  group.  \<open>rmatch\<close> is the backtracking matcher anchored at the start of its input: a
  greedy repetition tries the longer match first, a lazy one the shorter, and each choice
  is explored with the whole rest of the expression before the next is tried.  It returns
  the input that was left at each mark, in order, and the input after the match.
\<close>

datatype item =
    Lit char
  | Cls "char \<Rightarrow> bool"
  | Star "char \<Rightarrow> bool"
  | Lazy "char \<Rightarrow> bool"
  | Mark

fun rmatch :: "item list \<Rightarrow> string \<Rightarrow> (string list \<times> string) option" where
  "rmatch [] s = Some ([], s)"
| "rmatch (Lit c # r) [] = None"
| "rmatch (Lit c # r) (x # xs) = (if x = c then rmatch r xs else None)"
| "rmatch (Cls P # r) [] = None"
| "rmatch (Cls P # r) (x # xs) = (if P x then rmatch r xs else None)"
| "rmatch (Star P # r) [] = rmatch r []"
| "rmatch (Star P # r) (x # xs) =
     (if P x then
        (case rmatch (Star P # r) xs of
           Some m \<Rightarrow> Some m
         | None \<Rightarrow> rmatch r (x # xs))
      else rmatch r (x # xs))"
| "rmatch (Lazy P # r) [] = rmatch r []"
| "rmatch (Lazy P # r) (x # xs) =
     (case rmatch r (x # xs) of
        Some m \<Rightarrow> Some m
      | None \<Rightarrow> if P x then rmatch (Lazy P # r) xs else None)"
| "rmatch (Mark # r) s =
     (case rmatch r s of
        None \<Rightarrow> None
      | Some (ms, rest) \<Rightarrow> Some (s # ms, rest))"

text \<open>The text between two positions, each given by the input left there.\<close>

definition between :: "string \<Rightarrow> string \<Rightarrow> string" where
  "between s1 s2 = take (length s1 - length s2) s1"

text \<open>Capture group 1: the text between the first two marks.\<close>

fun group1 :: "string list \<Rightarrow> string" where
  "group1 (a # b # ms) = between a b"
| "group1 ms = []"

text \<open>
  A global scan (\<open>matchAll\<close>, \<open>replace\<close> with the \<open>g\<close> flag): the expression is tried
  at each position from the left; after a match the scan goes on where the match ended,
  one character further when the match was empty.  \<open>k\<close> counts the characters still
  covered by the last match.  Each match is the input at its start, its marks and the
  input after it.
\<close>

fun scan :: "item list \<Rightarrow> nat \<Rightarrow> string \<Rightarrow> (string \<times> string list \<times> string) list" where
  "scan re k [] =
     (if k = 0 then
        (case rmatch re [] of None \<Rightarrow> [] | Some (ms, rest) \<Rightarrow> [([], ms, rest)])
      else [])"
| "scan re (Suc k) (x # xs) = scan re k xs"
| "scan re 0 (x # xs) =
     (case rmatch re (x # xs) of
        None \<Rightarrow> scan re 0 xs
      | Some (ms, rest) \<Rightarrow>
          (x # xs, ms, rest) # scan re (length (x # xs) - length rest - 1) xs)"

fun replace_all :: "item list \<Rightarrow> (string list \<Rightarrow> string) \<Rightarrow> nat \<Rightarrow> string \<Rightarrow> string" where
  "replace_all re f k [] =
     (if k = 0 then (case rmatch re [] of None \<Rightarrow> [] | Some (ms, rest) \<Rightarrow> f ms) else [])"
| "replace_all re f (Suc k) (x # xs) = replace_all re f k xs"
| "replace_all re f 0 (x # xs) =
     (case rmatch re (x # xs) of
        None \<Rightarrow> x # replace_all re f 0 xs
      | Some (ms, rest) \<Rightarrow>
          if length rest = length (x # xs) then f ms @ x # replace_all re f 0 xs
          else f ms @ replace_all re f (length (x # xs) - length rest - 1) xs)"

text \<open>The classes: \<open>\d\<close>, \<open>\s\<close> (\<open>is_space\<close>) and \<open>.\<close>, which matches anything but a
  line terminator.\<close>

definition is_digit :: "char \<Rightarrow> bool" where
  "is_digit c = (48 \<le> (of_char c :: nat) \<and> (of_char c :: nat) \<le> 57)"

definition is_dot :: "char \<Rightarrow> bool" where
  "is_dot c = (c \<noteq> CHR ''\<newline>'' \<and> c \<noteq> CHR 0x0D)"

text \<open>\<open>\[IMAGE \d+\]\<close>\<close>

definition marker_items :: "item list" where
  "marker_items = map Lit ''[IMAGE '' @ [Cls is_digit, Star is_digit, Lit (CHR '']'')]"

text \<open>\<open>/\[IMAGE \d+\]\s*\n(.*?)\s*\n/g\<close>\<close>

definition promptRegex :: "item list" where
  "promptRegex =
     marker_items @
     [Star is_space, Lit CHR ''\<newline>'', Mark, Lazy is_dot, Mark, Star is_space, Lit CHR ''\<newline>'']"

text \<open>\<open>/\[IMAGE \d+\]\s*\n.*?\n/g\<close>, of the text sent to speech synthesis.\<close>

definition speechRegex :: "item list" where
  "speechRegex =
     marker_items @ [Star is_space, Lit CHR ''\<newline>'', Lazy is_dot, Lit CHR ''\<newline>'']"

text \<open>\<open>/(\[IMAGE \d+\])\s*\n.*?\n/g\<close>, of the text put on display.\<close>

definition displayRegex :: "item list" where
  "displayRegex =
     [Mark] @ marker_items @
     [Mark, Star is_space, Lit CHR ''\<newline>'', Lazy is_dot, Lit CHR ''\<newline>'']"

text \<open>\<open>/(\[IMAGE \d+\])/g\<close>, by which the displayed text is split into cues and prose.\<close>

definition markerRegex :: "item list" where
  "markerRegex = [Mark] @ marker_items @ [Mark]"

text \<open>\<open>[...rewrittenText.matchAll(promptRegex)].map(match => match[1].trim())\<close>\<close>

definition extractPrompts :: "string \<Rightarrow> string list" where
  "extractPrompts text = map (\<lambda>(s, ms, rest). trim (group1 ms)) (scan promptRegex 0 text)"

text \<open>\<open>rewrittenText.replace(/\[IMAGE \d+\]\s*\n.*?\n/g, '')\<close>\<close>

definition stripBoth :: "string \<Rightarrow> string" where
  "stripBoth text = replace_all speechRegex (\<lambda>ms. []) 0 text"

text \<open>\<open>belfortText.replace(/(\[IMAGE \d+\])\s*\n.*?\n/g, '$1\n')\<close>\<close>

definition stripPromptLines :: "string \<Rightarrow> string" where
  "stripPromptLines text = replace_all displayRegex (\<lambda>ms. group1 ms @ ''\<newline>'') 0 text"

text \<open>The cues that \<open>renderBelfortText\<close> shows: the parts of the split that are markers.\<close>

definition markers :: "string \<Rightarrow> string list" where
  "markers text = map (\<lambda>(s, ms, rest). group1 ms) (scan markerRegex 0 text)"

section \<open>SpeechGenerator\<close>

subsection \<open>Audio output\<close>

text \<open>
  The browser's audio contexts, numbered in order of creation.  \<open>close()\<close> returns a
  promise that resolves later; the callback given to \<open>then\<close> runs when it does.  A
  context is \<open>Running\<close> from its creation until \<open>close()\<close> is called on it, \<open>Closing\<close>
  until the promise resolves and \<open>Closed\<close> after.  \<open>pending\<close> holds the closes that
  have not resolved yet, oldest first, each with the buffer its callback will play;
  \<open>started\<close> holds the buffer sources started, each with its context.
  Calling \<open>close()\<close> on a context that is no longer running is rejected by the Web Audio
  specification, and then the callback never runs; \<open>reclose\<close> says whether the browser
  resolves such a call instead.
\<close>

datatype ctx_state = Running | Closing | Closed

record 'b audio =
  contexts :: "ctx_state list"
  audioContextRef :: "nat option"
  started :: "(nat \<times> 'b) list"
  pending :: "(nat \<times> 'b) list"

text \<open>\<open>audioContextRef.current = new AudioContext({ sampleRate: 24000 })\<close>\<close>

definition new_context :: "'b audio \<Rightarrow> 'b audio" where
  "new_context a =
     a\<lparr>contexts := contexts a @ [Running], audioContextRef := Some (length (contexts a))\<rparr>"

text \<open>\<open>audioContextRef.current.close().then(() => ... buffer ...)\<close>\<close>

definition close_then :: "bool \<Rightarrow> 'b \<Rightarrow> 'b audio \<Rightarrow> 'b audio" where
  "close_then reclose buffer a =
     (case audioContextRef a of
        None \<Rightarrow> a
      | Some c \<Rightarrow>
          if c < length (contexts a) \<and> contexts a ! c = Running then
            a\<lparr>contexts := (contexts a)[c := Closing], pending := pending a @ [(c, buffer)]\<rparr>
          else if reclose then a\<lparr>pending := pending a @ [(c, buffer)]\<rparr>
          else a)"

definition playAudio :: "bool \<Rightarrow> 'b option \<Rightarrow> 'b audio \<Rightarrow> 'b audio" where
  "playAudio reclose buffer a =
     (case buffer of
        None \<Rightarrow> a
      | Some b \<Rightarrow>
          close_then reclose b (if audioContextRef a = None then new_context a else a))"

text \<open>The oldest pending close resolves and its callback runs: a new context is created
  and stored, and a source with the buffer is started on it.\<close>

definition close_resolves :: "'b audio \<Rightarrow> 'b audio" where
  "close_resolves a =
     (case pending a of
        [] \<Rightarrow> a
      | (c, b) # ps \<Rightarrow>
          (let a1 = new_context (a\<lparr>contexts := (contexts a)[c := Closed], pending := ps\<rparr>)
           in a1\<lparr>started := started a1 @ [(length (contexts a1) - 1, b)]\<rparr>))"

text \<open>What the caller can observe: the contexts that are running, and the buffers that
  sound, which are those started on a running context.\<close>

definition active_contexts :: "'b audio \<Rightarrow> nat list" where
  "active_contexts a = filter (\<lambda>c. contexts a ! c = Running) [0..<length (contexts a)]"

definition sounding :: "'b audio \<Rightarrow> 'b list" where
  "sounding a =
     map snd (filter (\<lambda>(c, b). c < length (contexts a) \<and> contexts a ! c = Running) (started a))"

text \<open>The caller's calls and the browser's resolutions, interleaved in any order.\<close>

datatype 'b audio_event = Play 'b | CloseResolves

fun audio_step :: "bool \<Rightarrow> 'b audio \<Rightarrow> 'b audio_event \<Rightarrow> 'b audio" where
  "audio_step reclose a (Play b) = playAudio reclose (Some b) a"
| "audio_step reclose a CloseResolves = close_resolves a"

definition audio_run :: "bool \<Rightarrow> 'b audio_event list \<Rightarrow> 'b audio \<Rightarrow> 'b audio" where
  "audio_run reclose evs a = foldl (audio_step reclose) a evs"

definition initial_audio :: "'b audio" where
  "initial_audio = \<lparr>contexts = [], audioContextRef = None, started = [], pending = []\<rparr>"

subsection \<open>handleGenerateSpeech\<close>

text \<open>\<open>Promise.all\<close> of two promises of different types.\<close>

fun promise_all2 :: "'a timed \<Rightarrow> 'c timed \<Rightarrow> ('a \<times> 'c) timed" where
  "promise_all2 (t1, Fulfilled a) (t2, Fulfilled b) = (max t1 t2, Fulfilled (a, b))"
| "promise_all2 (t1, Rejected e) (t2, Fulfilled b) = (t1, Rejected e)"
| "promise_all2 (t1, Fulfilled a) (t2, Rejected e) = (t2, Rejected e)"
| "promise_all2 (t1, Rejected e1) (t2, Rejected e2) =
     (if t2 < t1 then (t2, Rejected e2) else (t1, Rejected e1))"

record 'b generated_audio =
  original :: "'b option"
  belfort :: "'b option"

text \<open>The component's state, with the audio it owns through \<open>audioContextRef\<close> and the
  parent's \<open>imagePrompts\<close>, which \<open>onScriptGenerated\<close> sets.\<close>

record 'b speech_state = ui_state +
  textInput :: string
  belfortText :: "string option"
  generatedAudio :: "'b generated_audio"
  hasImagePrompts :: bool
  imagePrompts :: "string list"
  audio :: "'b audio"

text \<open>
  The environment of a run: the key, how the rewriting request settles (with the
  response's \<open>text\<close>, which may be absent), when and how the two speech requests settle,
  and \<open>decodeAudioData(decode(base64), ...)\<close> of \<open>services/audioUtils\<close>, which is not
  part of the sources at hand and is taken as given.  \<open>type_error_text\<close> is the message of
  the \<open>TypeError\<close> the engine throws for \<open>undefined.trim()\<close>.
\<close>

record 'b speech_env =
  speech_api_key :: "string option"
  rewrite :: "string option settled"
  tts_original :: "response timed"
  tts_belfort :: "response timed"
  decodeAudioData :: "string \<Rightarrow> 'b timed"
  type_error_text :: string
  reclose :: bool

definition rewrite_prompt :: "string \<Rightarrow> string" where
  "rewrite_prompt t =
     ''Rewrite the following text to sound like it'' @ [CHR 0x27] @ ''s being spoken by a high-energy, persuasive, and confident motivational speaker like Jordan Belfort. Use punchy language, rhetorical questions, and a sense of urgency.\<newline>      Also, strategically insert up to 10 image cues formatted as [IMAGE #] on their own line. Immediately after each cue, on a new line, provide a concise, powerful image prompt that visually represents the preceding text.\<newline>      For example: ... some profound statement.\<newline>[IMAGE 1]\<newline>A golden lion standing on a mountain peak at sunrise.\<newline>Then continue the script...\<newline>      Original text: '' @ [CHR 0x22] @ t @ [CHR 0x22]"

definition say_prompt :: "string \<Rightarrow> string" where
  "say_prompt t =
     ''Say with the energetic, confident, and persuasive tone of a world-class motivational speaker like Jordan Belfort: '' @ [CHR 0x22] @ t @ [CHR 0x22]"

definition tts_model :: string where
  "tts_model = ''gemini-2.5-flash-preview-tts''"

text \<open>\<open>response.candidates?.[0]?.content?.parts?.[0]?.inlineData?.data\<close>\<close>

definition inline_audio :: "response \<Rightarrow> string option" where
  "inline_audio r =
     (case first_part r of
        None \<Rightarrow> None
      | Some p \<Rightarrow> (case inlineData p of None \<Rightarrow> None | Some d \<Rightarrow> Some (data d)))"

text \<open>The second half of the \<open>try\<close> block, from line 106: both payloads are needed.  The
  result is the state reached, and the value thrown if one was.\<close>

definition speech_decode ::
  "'b speech_env \<Rightarrow> response \<Rightarrow> response \<Rightarrow> 'b speech_state
     \<Rightarrow> ('b speech_state \<times> thrown) + 'b speech_state" where
  "speech_decode env r1 r2 st =
     (let failed = Inr (st\<lparr>error := Some ''Failed to generate one or both audio versions.''\<rparr>)
      in case inline_audio r1 of
           None \<Rightarrow> failed
         | Some originalBase64 \<Rightarrow>
            (case inline_audio r2 of
               None \<Rightarrow> failed
             | Some belfortBase64 \<Rightarrow>
                 if originalBase64 \<noteq> [] \<and> belfortBase64 \<noteq> [] then
                   (let a1 = (if audioContextRef (audio st) = None then new_context (audio st)
                              else audio st);
                        st4 = st\<lparr>audio := a1\<rparr>
                    in case snd (promise_all2 (decodeAudioData env originalBase64)
                                               (decodeAudioData env belfortBase64)) of
                         Rejected e \<Rightarrow> Inl (st4, e)
                       | Fulfilled (originalAudioBuffer, belfortAudioBuffer) \<Rightarrow>
                           Inr (st4\<lparr>generatedAudio :=
                                       \<lparr>original = Some originalAudioBuffer,
                                        belfort = Some belfortAudioBuffer\<rparr>,
                                    audio := playAudio (reclose env)
                                               (Some belfortAudioBuffer) a1\<rparr>))
                 else failed))"

text \<open>The \<open>try\<close> block.\<close>

definition speech_try ::
  "'b speech_env \<Rightarrow> 'b speech_state
     \<Rightarrow> (('b speech_state \<times> thrown) + 'b speech_state) \<times> event list" where
  "speech_try env st =
     (let req1 = GenerateContent \<lparr>model = ''gemini-2.5-flash'',
                                  contents = rewrite_prompt (textInput st)\<rparr>
      in case rewrite env of
           Rejected e \<Rightarrow> (Inl (st, e), [req1])
         | Fulfilled None \<Rightarrow> (Inl (st, Error (type_error_text env)), [req1])
         | Fulfilled (Some t) \<Rightarrow>
             (let rewrittenText = trim t;
                  st2 = st\<lparr>belfortText := Some rewrittenText\<rparr>;
                  prompts = extractPrompts rewrittenText;
                  st3 = (if length prompts > 0
                         then st2\<lparr>imagePrompts := prompts, hasImagePrompts := True\<rparr>
                         else st2);
                  textForSpeech = stripBoth rewrittenText;
                  reqs = [req1,
                          GenerateContent \<lparr>model = tts_model, contents = textInput st\<rparr>,
                          GenerateContent \<lparr>model = tts_model,
                                           contents = say_prompt textForSpeech\<rparr>]
              in case snd (promise_all2 (tts_original env) (tts_belfort env)) of
                   Rejected e \<Rightarrow> (Inl (st3, e), reqs)
                 | Fulfilled (originalAudioResponse, belfortAudioResponse) \<Rightarrow>
                     (speech_decode env originalAudioResponse belfortAudioResponse st3, reqs)))"

definition handleGenerateSpeech :: "'b speech_env \<Rightarrow> 'b speech_state \<Rightarrow> 'b speech_state run" where
  "handleGenerateSpeech env st =
     (if trim (textInput st) = [] then
        \<lparr>final = st\<lparr>error := Some ''Please enter some text to generate speech.''\<rparr>, log = []\<rparr>
      else if falsy (speech_api_key env) then
        \<lparr>final = st\<lparr>error := Some no_key_notice\<rparr>, log = []\<rparr>
      else
        (let st1 = st\<lparr>isLoading := True, error := None,
                       generatedAudio := \<lparr>original = None, belfort = None\<rparr>,
                       belfortText := None, hasImagePrompts := False\<rparr>;
             (res, evs) = speech_try env st1;
             st5 = (case res of
                      Inr st' \<Rightarrow> st'
                    | Inl (st', e) \<Rightarrow>
                        st'\<lparr>error := Some (''An error occurred: '' @ message_of e)\<rparr>)
         in \<lparr>final = st5\<lparr>isLoading := False\<rparr>, log = evs\<rparr>))"

section \<open>VideoGenerator\<close>

text \<open>The \<open>name\<close>, \<open>size\<close> and \<open>type\<close> of a \<open>File\<close>.\<close>

record image_file =
  file_name :: string
  file_size :: nat
  file_type :: string

text \<open>The long-running operation, with the fields read by
  \<open>operation.response?.generatedVideos?.[0]?.video?.uri\<close>.\<close>

record video =
  uri :: "string option"

record generated_video =
  video :: "video option"

record videos_response =
  generatedVideos :: "generated_video list option"

record operation =
  op_done :: bool
  op_response :: "videos_response option"

definition downloadLink :: "operation \<Rightarrow> string option" where
  "downloadLink operation =
     (case op_response operation of
        None \<Rightarrow> None
      | Some r \<Rightarrow>
          (case generatedVideos r of
             None \<Rightarrow> None
           | Some [] \<Rightarrow> None
           | Some (g # gs) \<Rightarrow> (case video g of None \<Rightarrow> None | Some v \<Rightarrow> uri v)))"

record fetch_response =
  ok :: bool
  statusText :: string
  blob :: "string settled"

record video_state = prompt_state +
  imageFile :: "image_file option"
  imagePreview :: "string option"
  videoUrl :: "string option"
  apiKeySelected :: bool

text \<open>
  The environment of a run: the key, what \<open>fileToBase64\<close> gives, how the submission
  settles, how the \<open>k\<close>-th call of \<open>getVideosOperation\<close> settles, how the download
  settles, and \<open>URL.createObjectURL\<close>.
\<close>

record video_env =
  video_api_key :: "string option"
  read_file :: "string settled"
  submit :: "operation settled"
  poll :: "nat \<Rightarrow> operation settled"
  fetch :: "fetch_response settled"
  createObjectURL :: "string \<Rightarrow> string"

text \<open>
  The loop of lines 127 to 130: while the operation is not done, wait ten seconds and ask
  again.  \<open>k\<close> counts the calls made so far.  The loop need not end, so its result is an
  option: \<open>None\<close> is a loop that runs forever.
\<close>

partial_function (option) poll_loop ::
  "(nat \<Rightarrow> operation settled) \<Rightarrow> nat \<Rightarrow> operation \<Rightarrow> event list
     \<Rightarrow> ((thrown + operation) \<times> event list) option" where
  "poll_loop p k operation evs =
     (if \<not> op_done operation then
        (case p k of
           Rejected e \<Rightarrow> Some (Inl e, evs @ [Sleep 10000, GetVideosOperation])
         | Fulfilled operation' \<Rightarrow>
             poll_loop p (Suc k) operation' (evs @ [Sleep 10000, GetVideosOperation]))
      else Some (Inr operation, evs))"

definition themed_video_prompt :: "string \<Rightarrow> string" where
  "themed_video_prompt p =
     ''A cinematic, luxurious, high-energy video of '' @ p @
     '', embodying wealth and power, Wolf of Wall Street style.''"

text \<open>A value inside a template literal: an absent one reads \<open>undefined\<close>.\<close>

fun template_text :: "string option \<Rightarrow> string" where
  "template_text None = ''undefined''"
| "template_text (Some s) = s"

text \<open>Lines 132 to 144: the download of the finished video.\<close>

definition download :: "video_env \<Rightarrow> operation \<Rightarrow> event list \<Rightarrow> (thrown + string) \<times> event list" where
  "download env operation evs =
     (let no_link = (Inl (Error ''Video generation completed, but no download link was provided.''),
                     evs)
      in case downloadLink operation of
           None \<Rightarrow> no_link
         | Some link \<Rightarrow>
             if link = [] then no_link
             else
               (let evs' = evs @ [Fetch (link @ ''&key='' @ template_text (video_api_key env))]
                in case fetch env of
                     Rejected e \<Rightarrow> (Inl e, evs')
                   | Fulfilled videoResponse \<Rightarrow>
                       if \<not> ok videoResponse then
                         (Inl (Error (''Failed to download video: '' @ statusText videoResponse)),
                          evs')
                       else
                         (case blob videoResponse of
                            Rejected e \<Rightarrow> (Inl e, evs')
                          | Fulfilled videoBlob \<Rightarrow>
                              (Inr (createObjectURL env videoBlob), evs'))))"

text \<open>The \<open>try\<close> block of \<open>handleGenerateVideo\<close>: the value thrown, or the URL of the
  video.\<close>

definition video_try ::
  "video_env \<Rightarrow> string \<Rightarrow> image_file \<Rightarrow> ((thrown + string) \<times> event list) option" where
  "video_try env p f =
     (case read_file env of
        Rejected e \<Rightarrow> Some (Inl e, [ReadFile])
      | Fulfilled imageBase64 \<Rightarrow>
          (let evs = [ReadFile,
                      GenerateVideos \<lparr>video_model = ''veo-3.1-fast-generate-preview'',
                                      video_prompt = themed_video_prompt p,
                                      imageBytes = imageBase64,
                                      imageMimeType = file_type f\<rparr>]
           in case submit env of
                Rejected e \<Rightarrow> Some (Inl e, evs)
              | Fulfilled operation \<Rightarrow>
                  (case poll_loop (poll env) 0 operation evs of
                     None \<Rightarrow> None
                   | Some (Inl e, evs') \<Rightarrow> Some (Inl e, evs')
                   | Some (Inr operation', evs') \<Rightarrow> Some (download env operation' evs'))))"

text \<open>\<open>errorMessage.includes(needle)\<close>\<close>

fun str_includes :: "string \<Rightarrow> string \<Rightarrow> bool" where
  "str_includes [] needle = (needle = [])"
| "str_includes (x # xs) needle = (prefix needle (x # xs) \<or> str_includes xs needle)"

definition not_found_text :: string where
  "not_found_text = ''Requested entity was not found''"

definition invalid_key_notice :: string where
  "invalid_key_notice = ''API key is invalid or not found. Please select a valid key.''"

text \<open>The \<open>catch\<close> block, lines 146 to 153.\<close>

definition video_catch :: "thrown \<Rightarrow> video_state \<Rightarrow> video_state" where
  "video_catch e st =
     (let errorMessage = message_of e;
          st1 = st\<lparr>error := Some (''An error occurred: '' @ errorMessage)\<rparr>
      in if str_includes errorMessage not_found_text
         then st1\<lparr>error := Some invalid_key_notice, apiKeySelected := False\<rparr>
         else st1)"

definition handleGenerateVideo :: "video_env \<Rightarrow> video_state \<Rightarrow> video_state run option" where
  "handleGenerateVideo env st =
     (let invalid = Some \<lparr>final = st\<lparr>error := Some ''Please provide a prompt and an image.''\<rparr>,
                           log = []\<rparr>
      in case imageFile st of
           None \<Rightarrow> invalid
         | Some f \<Rightarrow>
             if trim (prompt st) = [] then invalid
             else if falsy (video_api_key env) then
               Some \<lparr>final = st\<lparr>error := Some no_key_notice\<rparr>, log = []\<rparr>
             else
               (let st1 = st\<lparr>isLoading := True, error := None, videoUrl := None\<rparr>
                in case video_try env (prompt st) f of
                     None \<Rightarrow> None
                   | Some (Inr url, evs) \<Rightarrow>
                       Some \<lparr>final = st1\<lparr>videoUrl := Some url, isLoading := False\<rparr>, log = evs\<rparr>
                   | Some (Inl e, evs) \<Rightarrow>
                       Some \<lparr>final = (video_catch e st1)\<lparr>isLoading := False\<rparr>, log = evs\<rparr>))"

subsection \<open>The key selection of the hosting environment\<close>

text \<open>
  \<open>window.aistudio\<close>, when the host provides it.  The promise of \<open>openSelectKey\<close>
  carries no value: whether the user selected a key or dismissed the dialog does not
  reach the component.  The model keeps that fact in \<open>Closed\<close> to be able to speak of it.
\<close>

datatype dialog = Closed bool | Failed thrown

record aistudio =
  hasSelectedApiKey :: "bool settled"
  openSelectKey :: dialog

text \<open>\<open>checkApiKey\<close>, run once when the component mounts.\<close>

definition checkApiKey :: "aistudio option \<Rightarrow> video_state \<Rightarrow> video_state" where
  "checkApiKey host st =
     (case host of
        None \<Rightarrow> st
      | Some h \<Rightarrow>
          (case hasSelectedApiKey h of
             Fulfilled True \<Rightarrow> st\<lparr>apiKeySelected := True\<rparr>
           | Fulfilled False \<Rightarrow> st
           | Rejected e \<Rightarrow> st))"

definition handleSelectKey :: "aistudio option \<Rightarrow> video_state \<Rightarrow> video_state" where
  "handleSelectKey host st =
     (case host of
        None \<Rightarrow> st\<lparr>error := Some ''Could not open API key selection dialog.''\<rparr>
      | Some h \<Rightarrow>
          (case openSelectKey h of
             Closed selected \<Rightarrow> st\<lparr>apiKeySelected := True\<rparr>
           | Failed e \<Rightarrow> st\<lparr>error := Some ''Could not open API key selection dialog.''\<rparr>))"

definition handleFileChange :: "image_file option \<Rightarrow> (image_file \<Rightarrow> string) \<Rightarrow> video_state \<Rightarrow> video_state" where
  "handleFileChange file_opt preview st =
     (case file_opt of
        None \<Rightarrow> st
      | Some f \<Rightarrow>
          if file_size f > 4 * 1024 * 1024 then st\<lparr>error := Some ''Image size cannot exceed 4MB.''\<rparr>
          else st\<lparr>imageFile := Some f, imagePreview := Some (preview f), error := None\<rparr>)"

text \<open>What the component renders: the key gate, which has no way to submit, or the form.\<close>

datatype view = KeyGate | GeneratorForm

definition render :: "video_state \<Rightarrow> view" where
  "render st = (if \<not> apiKeySelected st then KeyGate else GeneratorForm)"

text \<open>The state with which the component mounts: the initial values of its
  \<open>useState\<close> calls.\<close>

definition initial_video_state :: video_state where
  "initial_video_state =
     \<lparr>isLoading = False, error = None, prompt = [], imageFile = None,
      imagePreview = None, videoUrl = None, apiKeySelected = False\<rparr>"

text \<open>
  Everything that can happen to the component.  \<open>App\<close> renders \<open>VideoGenerator\<close> only
  while the video tab is active, so the component is unmounted when the user leaves the
  tab and mounted anew when the user comes back: a mount discards the state, starts from
  the initial one and runs \<open>checkApiKey\<close>.
\<close>

datatype video_action =
    Mount "aistudio option"
  | SelectKey "aistudio option"
  | SetPrompt string
  | FileChange "image_file option" "image_file \<Rightarrow> string"
  | GenerateVideo video_env

fun video_step :: "video_action \<Rightarrow> video_state \<Rightarrow> video_state option" where
  "video_step (Mount host) st = Some (checkApiKey host initial_video_state)"
| "video_step (SelectKey host) st = Some (handleSelectKey host st)"
| "video_step (SetPrompt p) st = Some (st\<lparr>prompt := p\<rparr>)"
| "video_step (FileChange f preview) st = Some (handleFileChange f preview st)"
| "video_step (GenerateVideo env) st = map_option final (handleGenerateVideo env st)"

section \<open>Notions used to state the properties\<close>

text \<open>A response from which a binary payload can be extracted.\<close>

definition has_payload :: "response \<Rightarrow> bool" where
  "has_payload r = (case first_part r of None \<Rightarrow> False | Some p \<Rightarrow> inlineData p \<noteq> None)"

text \<open>Sample inputs.\<close>

definition payload_response :: response where
  "payload_response =
     \<lparr>candidates = Some [\<lparr>content = Some \<lparr>parts =
        [\<lparr>inlineData = Some \<lparr>mimeType = ''image/png'', data = ''AAAA''\<rparr>\<rparr>]\<rparr>\<rparr>]\<rparr>"

definition blocked_response :: response where
  "blocked_response = \<lparr>candidates = None\<rparr>"

definition sample_image_state :: image_state where
  "sample_image_state = \<lparr>isLoading = False, error = None, prompt = ''a wolf'', imageUrls = []\<rparr>"

definition partial_env :: "nat \<Rightarrow> response timed" where
  "partial_env i = (i, Fulfilled (if i < 3 then payload_response else blocked_response))"

definition rejecting_env :: "nat \<Rightarrow> response timed" where
  "rejecting_env i =
     (if i = 0 then (1, Rejected (Error ''boom'')) else (9, Fulfilled payload_response))"

definition sample_file :: image_file where
  "sample_file = \<lparr>file_name = ''wolf.png'', file_size = 1024, file_type = ''image/png''\<rparr>"

definition sample_video_state :: video_state where
  "sample_video_state =
     \<lparr>isLoading = False, error = None, prompt = ''a wolf'', imageFile = Some sample_file,
      imagePreview = None, videoUrl = None, apiKeySelected = True\<rparr>"

definition finished_operation :: operation where
  "finished_operation =
     \<lparr>op_done = True,
      op_response = Some \<lparr>generatedVideos = Some [\<lparr>video = Some \<lparr>uri = Some ''https://v/1?alt=media''\<rparr>\<rparr>]\<rparr>\<rparr>"

definition sample_ops :: "nat \<Rightarrow> operation" where
  "sample_ops k = (if k < 2 then \<lparr>op_done = False, op_response = None\<rparr> else finished_operation)"

definition sample_video_env :: video_env where
  "sample_video_env =
     \<lparr>video_api_key = Some ''key'', read_file = Fulfilled ''AAAA'',
      submit = Fulfilled (sample_ops 0), poll = (\<lambda>k. Fulfilled (sample_ops (Suc k))),
      fetch = Fulfilled \<lparr>ok = True, statusText = ''OK'', blob = Fulfilled ''bytes''\<rparr>,
      createObjectURL = (\<lambda>b. ''blob:1'')\<rparr>"

definition audio_response :: response where
  "audio_response =
     \<lparr>candidates = Some [\<lparr>content = Some \<lparr>parts =
        [\<lparr>inlineData = Some \<lparr>mimeType = ''audio/pcm'', data = ''UklG''\<rparr>\<rparr>]\<rparr>\<rparr>]\<rparr>"

definition sample_speech_state :: "string speech_state" where
  "sample_speech_state =
     \<lparr>isLoading = False, error = None, textInput = ''Sell me this pen'', belfortText = None,
      generatedAudio = \<lparr>original = Some ''old'', belfort = Some ''old''\<rparr>,
      hasImagePrompts = False, imagePrompts = [], audio = initial_audio\<rparr>"

definition sample_speech_env :: "string speech_env" where
  "sample_speech_env =
     \<lparr>speech_api_key = Some ''key'', rewrite = Fulfilled (Some ''Buy this pen now!''),
      tts_original = (2, Fulfilled audio_response), tts_belfort = (3, Fulfilled blocked_response),
      decodeAudioData = (\<lambda>b. (4, Fulfilled b)), type_error_text = ''TypeError'',
      reclose = False\<rparr>"


text \<open>A response of the rewriting request whose last lines are a cue block, and the text
  the handler makes of it.\<close>

definition final_cue_response :: string where
  "final_cue_response = ''Intro.\<newline>[IMAGE 1]\<newline>A golden lion.\<newline>''"

definition final_cue_text :: string where
  "final_cue_text = ''Intro.\<newline>[IMAGE 1]\<newline>A golden lion.''"

definition final_cue_env :: "string speech_env" where
  "final_cue_env = sample_speech_env\<lparr>rewrite := Fulfilled (Some final_cue_response)\<rparr>"

text \<open>A host whose dialog the user dismisses without selecting a key.\<close>

definition dismissing_host :: aistudio where
  "dismissing_host = \<lparr>hasSelectedApiKey = Fulfilled False, openSelectKey = Closed False\<rparr>"


text \<open>The events of \<open>d\<close> rounds of the polling loop.\<close>

definition polls :: "nat \<Rightarrow> event list" where
  "polls d = concat (replicate d [Sleep 10000, GetVideosOperation])"

text \<open>A speech request that fails: it rejects, or it settles without inline audio.\<close>

fun audio_failed :: "response timed \<Rightarrow> bool" where
  "audio_failed (t, Rejected e) = True"
| "audio_failed (t, Fulfilled r) = falsy (inline_audio r)"

definition no_audio :: "'b generated_audio" where
  "no_audio = \<lparr>original = None, belfort = None\<rparr>"

definition audio_failure_notice :: string where
  "audio_failure_notice = ''Failed to generate one or both audio versions.''"

definition blank_text_notice :: string where
  "blank_text_notice = ''Please enter some text to generate speech.''"

definition blank_prompt_notice :: string where
  "blank_prompt_notice = ''Please enter a prompt to generate an image.''"

definition no_prompt_or_image_notice :: string where
  "no_prompt_or_image_notice = ''Please provide a prompt and an image.''"

subsection \<open>Notions for the cue extractor\<close>

text \<open>The text of a marker with the given digits, and what digits are.\<close>

definition marker_text :: "string \<Rightarrow> string" where
  "marker_text ds = ''[IMAGE '' @ ds @ '']''"

definition digits :: "string \<Rightarrow> bool" where
  "digits ds = (ds \<noteq> [] \<and> list_all is_digit ds)"

text \<open>The literal characters of an expression, in order.\<close>

fun lits :: "item list \<Rightarrow> string" where
  "lits [] = []"
| "lits (Lit c # r) = c # lits r"
| "lits (Cls P # r) = lits r"
| "lits (Star P # r) = lits r"
| "lits (Lazy P # r) = lits r"
| "lits (Mark # r) = lits r"

text \<open>A character that cannot occur in a marker after its first character.\<close>

definition breaks_marker :: "char \<Rightarrow> bool" where
  "breaks_marker c = (c \<notin> set ''IMAGE ]'' \<and> \<not> is_digit c)"

text \<open>A prompt line: no line terminator in it, and not blank.\<close>

definition prompt_line :: "string \<Rightarrow> bool" where
  "prompt_line q = (list_all is_dot q \<and> list_ex (\<lambda>c. \<not> is_space c) q)"

text \<open>What follows the marker in \<open>promptRegex\<close>.\<close>

definition prompt_tail :: "item list" where
  "prompt_tail = [Star is_space, Lit CHR ''\<newline>'', Mark, Lazy is_dot, Mark,
                  Star is_space, Lit CHR ''\<newline>'']"

text \<open>
  A text made of blocks: each block is a marker line with the digits \<open>ds\<close>, a prompt
  line \<open>q\<close> ended by a line break, and the prose \<open>p\<close> that follows.  A block is
  well formed when its digits are digits, its prompt line is one, and its prose holds no
  marker.
\<close>

fun script :: "(string \<times> string \<times> string) list \<Rightarrow> string" where
  "script [] = []"
| "script ((ds, q, p) # bs) =
     marker_text ds @ ''\<newline>'' @ q @ ''\<newline>'' @ p @ script bs"

definition well_formed :: "string \<times> string \<times> string \<Rightarrow> bool" where
  "well_formed b = (case b of (ds, q, p) \<Rightarrow> digits ds \<and> prompt_line q \<and> markers p = [])"

definition prompts_of :: "(string \<times> string \<times> string) list \<Rightarrow> string list" where
  "prompts_of bs = map (\<lambda>(ds, q, p). trim q) bs"





section \<open>Properties\<close>

subsection \<open>The image batch\<close>

lemma image_url_payload: "image_url r \<noteq> None \<longleftrightarrow> has_payload r"
  by (simp add: image_url_def has_payload_def split: option.splits)

lemma length_map_filter_image_url:
  "length (List.map_filter image_url rs) = length (filter has_payload rs)"
  by (induction rs)
     (auto simp: List.map_filter_simps image_url_payload[symmetric] split: option.splits)

lemma first_rejection_None_iff:
  "first_rejection ps = None \<longleftrightarrow> (\<forall>p\<in>set ps. \<not> is_rejected p)"
  by (induction ps rule: first_rejection.induct) (auto split: option.splits)

lemma first_rejection_Some:
  "first_rejection ps = Some (t, e) \<Longrightarrow>
     (t, Rejected e) \<in> set ps \<and> (\<forall>p\<in>set ps. is_rejected p \<longrightarrow> t \<le> fst p)"
proof (induction ps arbitrary: t e rule: first_rejection.induct)
  case 1
  then show ?case by simp
next
  case (2 t' v ps)
  then show ?case by auto
next
  case (3 t' e' ps)
  show ?case
  proof (cases "first_rejection ps")
    case None
    then have "\<forall>p\<in>set ps. \<not> is_rejected p" by (simp only: first_rejection_None_iff)
    then show ?thesis using 3(2) None by auto
  next
    case (Some a)
    obtain t2 e2 where a: "a = (t2, e2)" by (cases a)
    from 3(1)[of t2 e2] Some a
    have ih: "(t2, Rejected e2) \<in> set ps" "\<forall>p\<in>set ps. is_rejected p \<longrightarrow> t2 \<le> fst p"
      by auto
    show ?thesis
    proof (cases "t2 < t'")
      case True
      then have "t = t2" "e = e2" using 3(2) Some a by auto
      then show ?thesis using ih True by auto
    next
      case False
      then have te: "t = t'" "e = e'" using 3(2) Some a by auto
      have "\<forall>p\<in>set ps. is_rejected p \<longrightarrow> t' \<le> fst p"
        using ih(2) False by (meson le_trans not_less)
      then show ?thesis using te by auto
    qed
  qed
qed

lemma fold_max_ge_init: "(m::nat) \<le> fold max xs m"
  by (induction xs arbitrary: m) (auto intro: order_trans[OF max.cobounded2])

lemma fold_max_ge: "x \<in> set xs \<Longrightarrow> (x::nat) \<le> fold max xs m"
proof (induction xs arbitrary: m)
  case Nil then show ?case by simp
next
  case (Cons y ys)
  show ?case
  proof (cases "x = y")
    case True
    have "max y m \<le> fold max ys (max y m)" by (rule fold_max_ge_init)
    then show ?thesis using True by simp
  next
    case False
    then show ?thesis using Cons by simp
  qed
qed

text \<open>
  C2 (as amended).  The handler sends all five requests and awaits them together.  If
  none of them rejects, its result comes no earlier than the last settlement, and every
  response without a payload is one individual failure: the images shown are those of the
  responses that carry one.  If some request rejects, the handler stops at the earliest
  rejection, whatever the other requests do, with that rejection's message as its single
  error and no image.
\<close>

theorem image_batch_settlement:
  assumes "trim (prompt st) \<noteq> []" and "\<not> falsy api_key"
  shows "let (r, t) = handleGenerateImage api_key env st in
      network_calls (log r) = 5
    \<and> ((\<forall>i<5. \<not> is_rejected (env i)) \<longrightarrow>
          (\<forall>i<5. fst (env i) \<le> t)
        \<and> length (imageUrls (final r))
            = length (filter has_payload (fulfilled_values (map env [0..<5]))))
    \<and> ((\<exists>i<5. is_rejected (env i)) \<longrightarrow>
          (\<exists>i<5. \<exists>e. env i = (t, Rejected e)
             \<and> error (final r) = Some (''An error occurred: '' @ message_of e))
        \<and> (\<forall>j<5. is_rejected (env j) \<longrightarrow> t \<le> fst (env j))
        \<and> imageUrls (final r) = [])"
proof (cases "first_rejection (map env [0..<5])")
  case None
  then have nr: "\<forall>p\<in>set (map env [0..<5]). \<not> is_rejected p"
    by (simp only: first_rejection_None_iff)
  then have nr': "\<forall>i<5. \<not> is_rejected (env i)" by simp
  define st1 where "st1 = st\<lparr>isLoading := True, error := None, imageUrls := []\<rparr>"
  define rs where "rs = fulfilled_values (map env [0..<5])"
  define t where "t = fold max (map fst (map env [0..<5])) 0"
  have pa: "promise_all (map env [0..<5]) = (t, Fulfilled rs)"
    by (simp add: promise_all_def None t_def rs_def)
  have tm: "\<forall>i<5. fst (env i) \<le> t"
  proof (intro allI impI)
    fix i :: nat assume "i < 5"
    then have "fst (env i) \<in> set (map fst (map env [0..<5]))" by simp
    then show "fst (env i) \<le> t" unfolding t_def by (rule fold_max_ge)
  qed
  have len: "length (imageUrls (aggregate_images rs st1)) = length (filter has_payload rs)"
    by (simp add: aggregate_images_def Let_def length_map_filter_image_url[symmetric] st1_def)
  have run: "handleGenerateImage api_key env st =
      (\<lparr>final = (aggregate_images rs st1)\<lparr>isLoading := False\<rparr>,
        log = map (\<lambda>i. GenerateContent \<lparr>model = ''gemini-2.5-flash-image'',
                                contents = themed_image_prompt (prompt st)\<rparr>) [0..<5]\<rparr>, t)"
    using assms unfolding handleGenerateImage_def pa st1_def by (simp add: Let_def)
  show ?thesis
    unfolding run using nr' tm len
    by (auto simp: network_calls_def rs_def)
next
  case (Some a)
  obtain t e where a: "a = (t, e)" by (cases a)
  have fr: "first_rejection (map env [0..<5]) = Some (t, e)" using Some a by simp
  from first_rejection_Some[OF fr]
  have mem: "(t, Rejected e) \<in> set (map env [0..<5])"
    and least: "\<forall>p\<in>set (map env [0..<5]). is_rejected p \<longrightarrow> t \<le> fst p" by auto
  from mem obtain i where i: "i < 5" "env i = (t, Rejected e)" by auto
  have least': "\<forall>j<5. is_rejected (env j) \<longrightarrow> t \<le> fst (env j)"
    using least by simp
  have pa: "promise_all (map env [0..<5]) = (t, Rejected e)"
    by (simp add: promise_all_def fr)
  define st1 where "st1 = st\<lparr>isLoading := True, error := None, imageUrls := []\<rparr>"
  have run: "handleGenerateImage api_key env st =
      (\<lparr>final = st1\<lparr>error := Some (''An error occurred: '' @ message_of e), isLoading := False\<rparr>,
        log = map (\<lambda>i. GenerateContent \<lparr>model = ''gemini-2.5-flash-image'',
                                contents = themed_image_prompt (prompt st)\<rparr>) [0..<5]\<rparr>, t)"
    using assms unfolding handleGenerateImage_def pa st1_def by (simp add: Let_def)
  have rej: "\<exists>i<5. is_rejected (env i)" using i by auto
  have ex: "\<exists>i<5. \<exists>e'. env i = (t, Rejected e')
             \<and> Some (''An error occurred: '' @ message_of e) = Some (''An error occurred: '' @ message_of e')"
    using i by blast
  show ?thesis
    unfolding run using rej ex least'
    by (auto simp: network_calls_def st1_def)
qed

text \<open>
  C2 (as stated) fails: when the first request rejects at moment 1 and the four others
  settle with a payload at moment 9, the handler has produced its result at moment 1, and
  the result is a failure of the whole batch.
\<close>

theorem image_batch_short_circuit_counterexample:
  "snd (handleGenerateImage (Some ''key'') rejecting_env sample_image_state) < fst (rejecting_env 1)
   \<and> imageUrls (final (fst (handleGenerateImage (Some ''key'') rejecting_env sample_image_state))) = []
   \<and> error (final (fst (handleGenerateImage (Some ''key'') rejecting_env sample_image_state)))
       = Some ''An error occurred: boom''"
  by (simp add: handleGenerateImage_def promise_all_def rejecting_env_def sample_image_state_def
      trim_def is_space_def upt_conv_Cons Let_def)

theorem image_batch_settlement_witness:
  "snd (handleGenerateImage (Some ''key'') rejecting_env sample_image_state) \<le> fst (rejecting_env 0)
   \<and> network_calls (log (fst (handleGenerateImage (Some ''key'') rejecting_env sample_image_state))) = 5"
proof -
  have h1: "trim (prompt sample_image_state) \<noteq> []"
    by (simp add: sample_image_state_def trim_def is_space_def)
  have h2: "\<not> falsy (Some ''key'')" by simp
  have r: "is_rejected (rejecting_env 0)" by (simp add: rejecting_env_def)
  show ?thesis
    using image_batch_settlement [OF h1 h2, of rejecting_env] r
    by (auto simp: Let_def split: prod.splits)
qed

lemma length_fulfilled_values:
  "\<forall>p\<in>set ps. \<not> is_rejected p \<Longrightarrow> length (fulfilled_values ps) = length ps"
  by (induction ps rule: fulfilled_values.induct) auto

lemma error_text_not_partial: "''An error occurred: '' @ m \<noteq> partial_notice n"
  by (simp add: partial_notice_def)

lemma error_text_not_no_images: "''An error occurred: '' @ m \<noteq> no_images_notice"
  by (simp add: no_images_notice_def)

text \<open>
  C1 (as amended).  Let \<open>s\<close> be the number of responses of the image batch that carry
  a payload.  When none of the five requests rejects, the handler shows the images of
  exactly those \<open>s\<close> responses; it shows five images and no notice if and only if
  \<open>s = 5\<close>; it shows some images together with the notice "Successfully generated s out
  of 5 images" if and only if \<open>0 < s < 5\<close>; and it shows no image and the notice that
  nothing was generated if and only if \<open>s = 0\<close>.  When a request rejects, the handler
  shows no image, whatever \<open>s\<close> is, and its notice is "An error occurred" with the
  message of the rejection, which is neither of the other two notices.
\<close>

theorem image_batch_aggregate:
  assumes "trim (prompt st) \<noteq> []" and "\<not> falsy api_key"
  shows "let rs = fulfilled_values (map env [0..<5]);
             s = length (filter has_payload rs);
             f = final (fst (handleGenerateImage api_key env st))
         in \<not> isLoading f
          \<and> ((\<forall>i<5. \<not> is_rejected (env i)) \<longrightarrow>
                imageUrls f = List.map_filter image_url rs \<and> length (imageUrls f) = s
              \<and> (s = 5 \<longleftrightarrow> length (imageUrls f) = 5 \<and> error f = None)
              \<and> (0 < s \<and> s < 5 \<longleftrightarrow>
                   imageUrls f \<noteq> [] \<and> error f = Some (partial_notice (length (imageUrls f))))
              \<and> (s = 0 \<longleftrightarrow> imageUrls f = [] \<and> error f = Some no_images_notice))
          \<and> ((\<exists>i<5. is_rejected (env i)) \<longrightarrow>
                imageUrls f = []
              \<and> (\<exists>m. error f = Some (''An error occurred: '' @ m))
              \<and> error f \<noteq> Some no_images_notice
              \<and> (\<forall>n. error f \<noteq> Some (partial_notice n)))"
proof (cases "first_rejection (map env [0..<5])")
  case None
  then have nr: "\<forall>p\<in>set (map env [0..<5]). \<not> is_rejected p"
    by (simp only: first_rejection_None_iff)
  then have nr': "\<forall>i<5. \<not> is_rejected (env i)" by simp
  define rs where "rs = fulfilled_values (map env [0..<5])"
  define urls where "urls = List.map_filter image_url rs"
  define s where "s = length (filter has_payload rs)"
  define st1 where "st1 = st\<lparr>isLoading := True, error := None, imageUrls := []\<rparr>"
  define f where "f = final (fst (handleGenerateImage api_key env st))"
  have pa: "promise_all (map env [0..<5]) = (fold max (map fst (map env [0..<5])) 0, Fulfilled rs)"
    by (simp add: promise_all_def None rs_def)
  have ls: "length urls = s"
    by (simp only: urls_def s_def length_map_filter_image_url)
  have "length rs = 5" using length_fulfilled_values[OF nr] by (simp add: rs_def)
  then have le: "s \<le> 5" using length_filter_le[of has_payload rs] by (simp add: s_def)
  have fin: "f = (aggregate_images rs st1)\<lparr>isLoading := False\<rparr>"
    using assms unfolding f_def st1_def handleGenerateImage_def pa by (simp add: Let_def)
  have agg: "aggregate_images rs st1 =
      (if urls = [] then st1\<lparr>error := Some no_images_notice\<rparr>
       else if length urls < 5
         then st1\<lparr>imageUrls := urls, error := Some (partial_notice (length urls))\<rparr>
       else st1\<lparr>imageUrls := urls\<rparr>)"
    unfolding aggregate_images_def urls_def[symmetric] by (simp add: Let_def)
  have main: "\<not> isLoading f \<and> imageUrls f = urls \<and> length (imageUrls f) = s
          \<and> (s = 5 \<longleftrightarrow> length (imageUrls f) = 5 \<and> error f = None)
          \<and> (0 < s \<and> s < 5 \<longleftrightarrow>
               imageUrls f \<noteq> [] \<and> error f = Some (partial_notice (length (imageUrls f))))
          \<and> (s = 0 \<longleftrightarrow> imageUrls f = [] \<and> error f = Some no_images_notice)"
  proof (cases "urls = []")
    case True
    then have "s = 0" using ls by simp
    then show ?thesis using True unfolding fin agg by (simp add: st1_def)
  next
    case False
    then have pos: "0 < s" using ls by auto
    show ?thesis
    proof (cases "s < 5")
      case True
      then show ?thesis using False pos ls unfolding fin agg by (simp add: st1_def)
    next
      case False
      then have "s = 5" using le by simp
      then show ?thesis using \<open>urls \<noteq> []\<close> ls unfolding fin agg by (simp add: st1_def)
    qed
  qed
  show ?thesis
    unfolding Let_def rs_def[symmetric] s_def[symmetric] f_def[symmetric] urls_def[symmetric]
    using main nr' by blast
next
  case (Some a)
  obtain t e where a: "a = (t, e)" by (cases a)
  have fr: "first_rejection (map env [0..<5]) = Some (t, e)" using Some a by simp
  from first_rejection_Some[OF fr]
  have mem: "(t, Rejected e) \<in> set (map env [0..<5])" by auto
  then obtain i where i: "i < 5" "env i = (t, Rejected e)" by auto
  have pa: "promise_all (map env [0..<5]) = (t, Rejected e)"
    by (simp add: promise_all_def fr)
  define st1 where "st1 = st\<lparr>isLoading := True, error := None, imageUrls := []\<rparr>"
  define f where "f = final (fst (handleGenerateImage api_key env st))"
  have fin: "f = st1\<lparr>error := Some (''An error occurred: '' @ message_of e), isLoading := False\<rparr>"
    using assms unfolding f_def handleGenerateImage_def pa st1_def by (simp add: Let_def)
  have rej: "\<not> (\<forall>i<5. \<not> is_rejected (env i))" using i by auto
  have main: "\<not> isLoading f \<and> imageUrls f = []
              \<and> (\<exists>m. error f = Some (''An error occurred: '' @ m))
              \<and> error f \<noteq> Some no_images_notice
              \<and> (\<forall>n. error f \<noteq> Some (partial_notice n))"
    unfolding fin using error_text_not_partial error_text_not_no_images
    by (simp add: st1_def)
  show ?thesis
    unfolding Let_def f_def[symmetric] using main rej by blast
qed

theorem image_batch_aggregate_witness:
  "length (imageUrls (final (fst (handleGenerateImage (Some ''key'') partial_env sample_image_state)))) = 3
   \<and> error (final (fst (handleGenerateImage (Some ''key'') partial_env sample_image_state)))
       = Some (partial_notice 3)"
proof -
  have h1: "trim (prompt sample_image_state) \<noteq> []"
    by (simp add: sample_image_state_def trim_def is_space_def)
  have h2: "\<not> falsy (Some ''key'')" by simp
  have nr: "\<forall>i<5. \<not> is_rejected (partial_env i)" by (simp add: partial_env_def)
  have s: "length (filter has_payload (fulfilled_values (map partial_env [0..<5]))) = 3"
    by (simp add: partial_env_def has_payload_def first_part_def payload_response_def
        blocked_response_def upt_conv_Cons)
  note t = image_batch_aggregate [OF h1 h2, of partial_env, unfolded Let_def s]
  have r: "0 < (3::nat) \<and> (3::nat) < 5" by simp
  from t nr r
  have a: "length (imageUrls (final (fst (handleGenerateImage (Some ''key'') partial_env
              sample_image_state)))) = 3"
    and b: "error (final (fst (handleGenerateImage (Some ''key'') partial_env sample_image_state)))
       = Some (partial_notice (length (imageUrls (final (fst (handleGenerateImage (Some ''key'')
              partial_env sample_image_state))))))"
    by blast+
  show ?thesis using a b by simp
qed

text \<open>
  C1 (as stated) fails: when one request rejects and the four others settle with a
  payload, no image is shown and the notice is neither "generated 4 out of 5" nor
  "failed to generate any".
\<close>

theorem image_batch_rejection_counterexample:
  "length (filter has_payload (fulfilled_values (map rejecting_env [0..<5]))) = 4
   \<and> imageUrls (final (fst (handleGenerateImage (Some ''key'') rejecting_env sample_image_state))) = []
   \<and> error (final (fst (handleGenerateImage (Some ''key'') rejecting_env sample_image_state)))
       \<noteq> Some (partial_notice 4)
   \<and> error (final (fst (handleGenerateImage (Some ''key'') rejecting_env sample_image_state)))
       \<noteq> Some no_images_notice"
  by (simp add: handleGenerateImage_def promise_all_def rejecting_env_def sample_image_state_def
      trim_def is_space_def upt_conv_Cons Let_def has_payload_def first_part_def
      payload_response_def partial_notice_def no_images_notice_def)

subsection \<open>The polling loop of the video generator\<close>

lemma polls_Suc: "polls (Suc d) = [Sleep 10000, GetVideosOperation] @ polls d"
  by (simp add: polls_def)

lemma poll_loop_run:
  assumes "\<forall>k<d. p k = Fulfilled (ops (Suc k))"
    and "\<forall>k<d. \<not> op_done (ops k)"
    and "op_done (ops d)"
    and "k \<le> d"
  shows "poll_loop p k (ops k) evs = Some (Inr (ops d), evs @ polls (d - k))"
  using assms(4)
proof (induction "d - k" arbitrary: k evs)
  case 0
  then have "k = d" by simp
  then show ?case using assms(3) by (subst poll_loop.simps) (simp add: polls_def)
next
  case (Suc n)
  then have lt: "k < d" and n: "n = d - Suc k" by auto
  have step: "poll_loop p k (ops k) evs =
      poll_loop p (Suc k) (ops (Suc k)) (evs @ [Sleep 10000, GetVideosOperation])"
    using assms(1,2) lt by (subst poll_loop.simps) simp
  have "d - k = Suc (d - Suc k)" using lt by simp
  then have pk: "polls (d - k) = [Sleep 10000, GetVideosOperation] @ polls (d - Suc k)"
    by (simp only: polls_Suc)
  show ?case
    unfolding step using Suc(1)[OF n, of "evs @ [Sleep 10000, GetVideosOperation]"] lt
    by (simp add: pk)
qed

lemma download_log:
  "\<exists>post. snd (download env operation evs) = evs @ post \<and> GetVideosOperation \<notin> set post"
  by (auto simp: download_def Let_def split: option.splits settled.splits)

lemma video_catch_error: "error (video_catch e st) \<noteq> None"
  by (simp add: video_catch_def Let_def)

lemma count_polls: "length (filter (\<lambda>e. e = GetVideosOperation) (polls d)) = d"
  by (induction d) (simp_all add: polls_def)

text \<open>
  C6.  Let the submission and the polls all answer, with an operation that is done for
  the first time in the answer to the \<open>d\<close>-th poll.  Then the handler returns, in a
  terminal state (not loading, with a video or an error); it makes exactly \<open>d\<close> polls,
  each right after a wait of 10000 milliseconds; and its log is what precedes the loop,
  \<open>d\<close> rounds of wait and poll, and what follows the loop.
\<close>

theorem poller_terminates_after_D_polls:
  assumes "imageFile st = Some f" and "trim (prompt st) \<noteq> []"
    and "\<not> falsy (video_api_key env)"
    and "read_file env = Fulfilled b64" and "submit env = Fulfilled (ops 0)"
    and "\<forall>k<d. poll env k = Fulfilled (ops (Suc k))"
    and "\<forall>k<d. \<not> op_done (ops k)"
    and "op_done (ops d)"
  shows "\<exists>r pre post. handleGenerateVideo env st = Some r
      \<and> \<not> isLoading (final r)
      \<and> (videoUrl (final r) \<noteq> None \<or> error (final r) \<noteq> None)
      \<and> log r = pre @ polls d @ post
      \<and> GetVideosOperation \<notin> set pre \<and> GetVideosOperation \<notin> set post
      \<and> length (filter (\<lambda>e. e = GetVideosOperation) (log r)) = d"
proof -
  define pre where "pre = [ReadFile,
                      GenerateVideos \<lparr>video_model = ''veo-3.1-fast-generate-preview'',
                                      video_prompt = themed_video_prompt (prompt st),
                                      imageBytes = b64,
                                      imageMimeType = file_type f\<rparr>]"
  have loop: "poll_loop (poll env) 0 (ops 0) pre = Some (Inr (ops d), pre @ polls d)"
    using poll_loop_run[OF assms(6,7,8), of 0 pre] by simp
  obtain post where post: "snd (download env (ops d) (pre @ polls d)) = (pre @ polls d) @ post"
    "GetVideosOperation \<notin> set post"
    using download_log by blast
  have vt: "video_try env (prompt st) f = Some (download env (ops d) (pre @ polls d))"
    unfolding video_try_def using assms(4,5) loop by (simp add: Let_def pre_def)
  obtain res where dl: "download env (ops d) (pre @ polls d) = (res, pre @ polls d @ post)"
    using post(1) by (cases "download env (ops d) (pre @ polls d)") simp
  have pre_np: "GetVideosOperation \<notin> set pre" by (simp add: pre_def)
  have cnt: "length (filter (\<lambda>e. e = GetVideosOperation) (pre @ polls d @ post)) = d"
  proof -
    have "filter (\<lambda>e. e = GetVideosOperation) pre = []"
      using pre_np by (auto simp: filter_empty_conv)
    moreover have "filter (\<lambda>e. e = GetVideosOperation) post = []"
      using post(2) by (auto simp: filter_empty_conv)
    ultimately show ?thesis using count_polls[of d] by simp
  qed
  define st1 where "st1 = st\<lparr>isLoading := True, error := None, videoUrl := None\<rparr>"
  define r where "r = (case res of
       Inr url \<Rightarrow> \<lparr>final = st1\<lparr>videoUrl := Some url, isLoading := False\<rparr>,
                    log = pre @ polls d @ post\<rparr>
     | Inl e \<Rightarrow> \<lparr>final = (video_catch e st1)\<lparr>isLoading := False\<rparr>,
                  log = pre @ polls d @ post\<rparr>)"
  have hr: "handleGenerateVideo env st = Some r"
    using assms(1,2,3) vt dl unfolding handleGenerateVideo_def r_def st1_def
    by (cases res) (simp_all add: Let_def)
  have lg: "log r = pre @ polls d @ post" by (cases res) (simp_all add: r_def)
  have fl: "\<not> isLoading (final r)" by (cases res) (simp_all add: r_def)
  have tm: "videoUrl (final r) \<noteq> None \<or> error (final r) \<noteq> None"
    using video_catch_error by (cases res) (simp_all add: r_def)
  show ?thesis
    apply (rule exI[of _ r], rule exI[of _ pre], rule exI[of _ post])
    using hr lg fl tm pre_np post(2) cnt by simp
qed

theorem poller_terminates_after_D_polls_witness:
  "\<exists>r. handleGenerateVideo sample_video_env sample_video_state = Some r
     \<and> \<not> isLoading (final r)
     \<and> length (filter (\<lambda>e. e = GetVideosOperation) (log r)) = 2"
proof -
  have h1: "imageFile sample_video_state = Some sample_file"
    by (simp add: sample_video_state_def)
  have h2: "trim (prompt sample_video_state) \<noteq> []"
    by (simp add: sample_video_state_def trim_def is_space_def)
  have h3: "\<not> falsy (video_api_key sample_video_env)" by (simp add: sample_video_env_def)
  have h4: "read_file sample_video_env = Fulfilled ''AAAA''" by (simp add: sample_video_env_def)
  have h5: "submit sample_video_env = Fulfilled (sample_ops 0)"
    by (simp add: sample_video_env_def)
  have h6: "\<forall>k<2. poll sample_video_env k = Fulfilled (sample_ops (Suc k))"
    by (simp add: sample_video_env_def)
  have h7: "\<forall>k<2. \<not> op_done (sample_ops k)" by (simp add: sample_ops_def)
  have h8: "op_done (sample_ops 2)" by (simp add: sample_ops_def finished_operation_def)
  show ?thesis
    using poller_terminates_after_D_polls [OF h1 h2 h3 h4 h5 h6 h7 h8] by blast
qed

subsection \<open>The classification of video failures\<close>



subsection \<open>Missing credential and blank input\<close>

text \<open>
  C8 (as amended).  Input validation comes first: a handler called with blank text (for
  video: blank text or no image) makes no network call and reports the validation
  message, whatever the credential.  A handler called with valid input while no
  credential is configured makes no network call and reports the configuration message.
\<close>

theorem missing_credential_no_network:
  "(falsy (speech_api_key senv) \<or> trim (textInput sst) = [] \<longrightarrow>
      network_calls (log (handleGenerateSpeech senv sst)) = 0
    \<and> error (final (handleGenerateSpeech senv sst)) =
        Some (if trim (textInput sst) = [] then blank_text_notice else no_key_notice))
 \<and> (falsy key \<or> trim (prompt ist) = [] \<longrightarrow>
      network_calls (log (fst (handleGenerateImage key ienv ist))) = 0
    \<and> error (final (fst (handleGenerateImage key ienv ist))) =
        Some (if trim (prompt ist) = [] then blank_prompt_notice else no_key_notice))
 \<and> (falsy (video_api_key venv) \<or> trim (prompt vst) = [] \<or> imageFile vst = None \<longrightarrow>
      (\<exists>r. handleGenerateVideo venv vst = Some r
         \<and> network_calls (log r) = 0
         \<and> error (final r) =
             Some (if trim (prompt vst) = [] \<or> imageFile vst = None
                   then no_prompt_or_image_notice else no_key_notice)))"
  by (auto simp: handleGenerateSpeech_def handleGenerateImage_def handleGenerateVideo_def
      network_calls_def Let_def blank_text_notice_def blank_prompt_notice_def
      no_prompt_or_image_notice_def split: option.splits)

theorem missing_credential_no_network_witness:
  "network_calls (log (handleGenerateSpeech (sample_speech_env\<lparr>speech_api_key := None\<rparr>)
      sample_speech_state)) = 0
   \<and> error (final (handleGenerateSpeech (sample_speech_env\<lparr>speech_api_key := None\<rparr>)
      sample_speech_state)) = Some no_key_notice"
proof -
  have t: "trim (textInput sample_speech_state) \<noteq> []"
    by (simp add: sample_speech_state_def trim_def is_space_def)
  show ?thesis
    using missing_credential_no_network
      [of "sample_speech_env\<lparr>speech_api_key := None\<rparr>" sample_speech_state] t
    by simp
qed

text \<open>
  C8 (as stated) fails: called with blank text and no credential, the speech handler
  reports the validation message, not the configuration message.
\<close>

theorem missing_credential_counterexample:
  "error (final (handleGenerateSpeech (sample_speech_env\<lparr>speech_api_key := None\<rparr>)
                  (sample_speech_state\<lparr>textInput := ''  ''\<rparr>)))
     = Some ''Please enter some text to generate speech.''
   \<and> error (final (handleGenerateSpeech (sample_speech_env\<lparr>speech_api_key := None\<rparr>)
                  (sample_speech_state\<lparr>textInput := ''  ''\<rparr>))) \<noteq> Some no_key_notice"
  by (simp add: handleGenerateSpeech_def sample_speech_state_def trim_def is_space_def
      no_key_notice_def)

subsection \<open>The key-selected flag\<close>

text \<open>
  C10 (as amended).  Whenever the key selection dialog closes without throwing, whether
  or not the user selected a key, \<open>handleSelectKey\<close> sets the key-selected flag and the
  component renders the form that submits videos.  While the component stays mounted,
  only a video generation that fails with an error text containing "Requested entity was
  not found" takes the flag from true to false.  A mount starts from a flag that is
  false and sets it exactly when the host reports a selected key, so entering the video
  tab again lowers a flag that a dismissed dialog had raised.
\<close>

theorem select_key_assumes_success:
  "(openSelectKey h = Closed selected \<longrightarrow>
      apiKeySelected (handleSelectKey (Some h) st)
    \<and> render (handleSelectKey (Some h) st) = GeneratorForm)
   \<and> (video_step a st = Some st' \<and> apiKeySelected st \<and> \<not> apiKeySelected st' \<longrightarrow>
        (\<exists>host. a = Mount host)
      \<or> (\<exists>env f e evs. a = GenerateVideo env \<and> imageFile st = Some f
            \<and> video_try env (prompt st) f = Some (Inl e, evs)
            \<and> str_includes (message_of e) not_found_text))
   \<and> (video_step (Mount host) st = Some st' \<longrightarrow>
        (apiKeySelected st' \<longleftrightarrow> (\<exists>h'. host = Some h' \<and> hasSelectedApiKey h' = Fulfilled True)))"
proof -
  have a: "openSelectKey h = Closed selected \<longrightarrow>
      apiKeySelected (handleSelectKey (Some h) st)
    \<and> render (handleSelectKey (Some h) st) = GeneratorForm"
    by (simp add: handleSelectKey_def render_def)
  have b: "video_step a st = Some st' \<and> apiKeySelected st \<and> \<not> apiKeySelected st' \<longrightarrow>
        (\<exists>host. a = Mount host)
      \<or> (\<exists>env f e evs. a = GenerateVideo env \<and> imageFile st = Some f
            \<and> video_try env (prompt st) f = Some (Inl e, evs)
            \<and> str_includes (message_of e) not_found_text)"
  proof (cases a)
    case (Mount host)
    then show ?thesis by simp
  next
    case (SelectKey host)
    then show ?thesis
      by (auto simp: handleSelectKey_def split: option.splits dialog.splits)
  next
    case (SetPrompt p)
    then show ?thesis by auto
  next
    case (FileChange fo pv)
    then show ?thesis
      by (auto simp: handleFileChange_def split: option.splits if_splits)
  next
    case (GenerateVideo env)
    then show ?thesis
      by (auto simp: handleGenerateVideo_def Let_def video_catch_def
          split: option.splits if_splits sum.splits prod.splits)
  qed
  have c: "video_step (Mount host) st = Some st' \<longrightarrow>
        (apiKeySelected st' \<longleftrightarrow> (\<exists>h'. host = Some h' \<and> hasSelectedApiKey h' = Fulfilled True))"
    by (auto simp: checkApiKey_def initial_video_state_def
        split: option.splits settled.splits bool.splits)
  show ?thesis using a b c by blast
qed

theorem select_key_assumes_success_witness:
  "apiKeySelected (handleSelectKey (Some dismissing_host) initial_video_state)
   \<and> render (handleSelectKey (Some dismissing_host) initial_video_state) = GeneratorForm"
  using select_key_assumes_success [of dismissing_host False initial_video_state]
  by (simp add: dismissing_host_def)

text \<open>
  C10 (as stated) fails: the user dismisses the dialog, which raises the flag, leaves the
  video tab and comes back; the component mounts again and the flag is false, with no
  generation in between.
\<close>

theorem remount_lowers_flag_counterexample:
  "apiKeySelected (handleSelectKey (Some dismissing_host) initial_video_state)
   \<and> map_option apiKeySelected
        (video_step (Mount (Some dismissing_host))
           (handleSelectKey (Some dismissing_host) initial_video_state)) = Some False"
  by (simp add: handleSelectKey_def checkApiKey_def dismissing_host_def initial_video_state_def)

subsection \<open>The two speech requests\<close>

lemma speech_decode_cases:
  "(\<exists>st'. speech_decode env r1 r2 st = Inr st' \<and> generatedAudio st' = generatedAudio st
        \<and> error st' = Some audio_failure_notice)
   \<or> (\<exists>st' e. speech_decode env r1 r2 st = Inl (st', e) \<and> generatedAudio st' = generatedAudio st)
   \<or> (\<exists>st' a b. speech_decode env r1 r2 st = Inr st'
        \<and> generatedAudio st' = \<lparr>original = Some a, belfort = Some b\<rparr>
        \<and> \<not> falsy (inline_audio r1) \<and> \<not> falsy (inline_audio r2))"
  by (auto simp: speech_decode_def Let_def audio_failure_notice_def
      split: option.splits settled.splits prod.splits)

lemma speech_try_cases:
  assumes "generatedAudio st = no_audio"
  shows "(\<exists>st' evs. speech_try env st = (Inr st', evs) \<and> generatedAudio st' = no_audio
        \<and> error st' = Some audio_failure_notice)
   \<or> (\<exists>st' e evs. speech_try env st = (Inl (st', e), evs) \<and> generatedAudio st' = no_audio)
   \<or> (\<exists>st' a b evs. speech_try env st = (Inr st', evs)
        \<and> generatedAudio st' = \<lparr>original = Some a, belfort = Some b\<rparr>
        \<and> \<not> audio_failed (tts_original env) \<and> \<not> audio_failed (tts_belfort env))"
proof (cases "rewrite env")
  case (Rejected e)
  then show ?thesis using assms by (simp add: speech_try_def Let_def)
next
  case (Fulfilled topt)
  show ?thesis
  proof (cases topt)
    case None
    then show ?thesis using assms Fulfilled by (simp add: speech_try_def Let_def)
  next
    case (Some t)
    define st3 where "st3 = (let st2 = st\<lparr>belfortText := Some (trim t)\<rparr> in
        if length (extractPrompts (trim t)) > 0
        then st2\<lparr>imagePrompts := extractPrompts (trim t), hasImagePrompts := True\<rparr>
        else st2)"
    have g3: "generatedAudio st3 = no_audio" using assms by (simp add: st3_def Let_def)
    obtain t1 o1 where p1: "tts_original env = (t1, o1)" by (cases "tts_original env")
    obtain t2 o2 where p2: "tts_belfort env = (t2, o2)" by (cases "tts_belfort env")
    show ?thesis
    proof (cases "snd (promise_all2 (tts_original env) (tts_belfort env))")
      case (Rejected e)
      then show ?thesis using Fulfilled Some g3
        by (simp add: speech_try_def Let_def st3_def)
    next
      case (Fulfilled rs)
      obtain r1 r2 where rs: "rs = (r1, r2)" by (cases rs)
      have o: "o1 = settled.Fulfilled r1" "o2 = settled.Fulfilled r2"
        using Fulfilled rs p1 p2 by (cases o1; cases o2; simp split: if_splits)+
      have tr: "speech_try env st = (speech_decode env r1 r2 st3, [GenerateContent \<lparr>model = ''gemini-2.5-flash'',
                                  contents = rewrite_prompt (textInput st)\<rparr>,
                          GenerateContent \<lparr>model = tts_model, contents = textInput st\<rparr>,
                          GenerateContent \<lparr>model = tts_model,
                                           contents = say_prompt (stripBoth (trim t))\<rparr>])"
        using \<open>rewrite env = settled.Fulfilled topt\<close> Some Fulfilled rs
        by (simp add: speech_try_def Let_def st3_def)
      show ?thesis
        using speech_decode_cases[of env r1 r2 st3] g3 unfolding tr
        by (auto simp: p1 p2 o)
    qed
  qed
qed

text \<open>
  C9.  In a run of the speech handler with valid input and a credential, the stored
  audio never holds exactly one of the two buffers.  If either of the two speech
  requests fails (it rejects, or it settles without inline audio), the run ends with no
  buffer stored and with one error message: the notice that one or both versions
  failed, or the message of the rejection.
\<close>

theorem speech_audio_all_or_nothing:
  assumes "trim (textInput st) \<noteq> []" and "\<not> falsy (speech_api_key env)"
  shows "let f = final (handleGenerateSpeech env st) in
     (original (generatedAudio f) = None \<longleftrightarrow> belfort (generatedAudio f) = None)
   \<and> (audio_failed (tts_original env) \<or> audio_failed (tts_belfort env) \<longrightarrow>
         generatedAudio f = no_audio \<and> \<not> isLoading f
       \<and> (error f = Some audio_failure_notice
            \<or> (\<exists>m. error f = Some (''An error occurred: '' @ m))))"
proof -
  define st1 where "st1 = st\<lparr>isLoading := True, error := None,
                       generatedAudio := \<lparr>original = None, belfort = None\<rparr>,
                       belfortText := None, hasImagePrompts := False\<rparr>"
  have g1: "generatedAudio st1 = no_audio" by (simp add: st1_def no_audio_def)
  have run: "handleGenerateSpeech env st =
      (let (res, evs) = speech_try env st1;
             st5 = (case res of
                      Inr st' \<Rightarrow> st'
                    | Inl (st', e) \<Rightarrow>
                        st'\<lparr>error := Some (''An error occurred: '' @ message_of e)\<rparr>)
         in \<lparr>final = st5\<lparr>isLoading := False\<rparr>, log = evs\<rparr>)"
    using assms by (simp add: handleGenerateSpeech_def st1_def Let_def)
  show ?thesis
    using speech_try_cases[OF g1, of env] unfolding run
    by (auto simp: Let_def no_audio_def)
qed

theorem speech_audio_all_or_nothing_witness:
  "generatedAudio (final (handleGenerateSpeech sample_speech_env sample_speech_state)) = no_audio
   \<and> error (final (handleGenerateSpeech sample_speech_env sample_speech_state))
       = Some audio_failure_notice"
proof -
  have h1: "trim (textInput sample_speech_state) \<noteq> []"
    by (simp add: sample_speech_state_def trim_def is_space_def)
  have h2: "\<not> falsy (speech_api_key sample_speech_env)"
    by (simp add: sample_speech_env_def)
  have h3: "audio_failed (tts_belfort sample_speech_env)"
    by (simp add: sample_speech_env_def inline_audio_def first_part_def blocked_response_def)
  have e: "error (final (handleGenerateSpeech sample_speech_env sample_speech_state))
       = Some audio_failure_notice"
    using h1 h2
    by (simp add: handleGenerateSpeech_def speech_try_def speech_decode_def Let_def
        sample_speech_env_def inline_audio_def first_part_def blocked_response_def
        audio_response_def audio_failure_notice_def)
  show ?thesis
    using speech_audio_all_or_nothing [OF h1 h2] h3 e by (simp add: Let_def)
qed

subsection \<open>Playback\<close>

text \<open>
  C3 fails on the code.  \<open>playAudio(A)\<close> followed by \<open>playAudio(B)\<close> before the
  close started by the first call has resolved: where the browser rejects the second
  \<open>close()\<close>, as the Web Audio specification says, \<open>B\<close> is never played and \<open>A\<close> sounds;
  where the browser resolves it, two contexts stay active and \<open>A\<close> and \<open>B\<close> sound
  together.
\<close>

theorem playback_race_leaks_or_drops:
  "sounding (audio_run False [Play ''A'', Play ''B'', CloseResolves, CloseResolves] initial_audio) = [''A'']
   \<and> active_contexts (audio_run True [Play ''A'', Play ''B'', CloseResolves, CloseResolves] initial_audio) = [1, 2]
   \<and> sounding (audio_run True [Play ''A'', Play ''B'', CloseResolves, CloseResolves] initial_audio) = [''A'', ''B'']"
  by (simp add: audio_run_def playAudio_def close_then_def close_resolves_def new_context_def
      initial_audio_def sounding_def active_contexts_def Let_def upt_conv_Cons)

text \<open>When the first close has resolved before the second call, only \<open>B\<close> sounds.\<close>

lemma playback_in_turn:
  "sounding (audio_run rc [Play ''A'', CloseResolves, Play ''B'', CloseResolves] initial_audio) = [''B'']
   \<and> active_contexts (audio_run rc [Play ''A'', CloseResolves, Play ''B'', CloseResolves] initial_audio) = [2]"
  by (simp add: audio_run_def playAudio_def close_then_def close_resolves_def new_context_def
      initial_audio_def sounding_def active_contexts_def Let_def upt_conv_Cons)

subsection \<open>The cue extractor\<close>

lemma rmatch_Lits:
  "rmatch (map Lit w @ r) s = (if prefix w s then rmatch r (drop (length w) s) else None)"
proof (induction w arbitrary: s)
  case Nil
  then show ?case by simp
next
  case (Cons c w)
  then show ?case by (cases s) auto
qed

lemma rmatch_Star_Lit:
  assumes "\<not> P c"
  shows "rmatch (Star P # Lit c # r) s = rmatch (Lit c # r) (dropWhile P s)"
proof (induction s)
  case Nil
  then show ?case by simp
next
  case (Cons x xs)
  show ?case
  proof (cases "P x")
    case True
    then have "x \<noteq> c" using assms by auto
    then show ?thesis using True Cons by (simp split: option.splits)
  next
    case False
    then show ?thesis by simp
  qed
qed

lemma rmatch_count:
  "rmatch r s = Some (ms, rest) \<Longrightarrow>
     count_list (lits r) c + count_list rest c \<le> count_list s c"
proof (induction r s arbitrary: ms rest rule: rmatch.induct)
  case (7 P r x xs)
  then show ?case by (auto split: if_splits option.splits simp: le_SucI)
next
  case (9 P r x xs)
  then show ?case by (auto split: if_splits option.splits simp: le_SucI)
next
  case (10 r s)
  then show ?case by (auto split: option.splits)
qed (auto split: if_splits simp: le_SucI)

lemma is_digit_not_bracket: "\<not> is_digit CHR '']''"
  by (simp add: is_digit_def)

lemma rmatch_digits:
  assumes "digits ds"
  shows "rmatch (Cls is_digit # Star is_digit # Lit CHR '']'' # r) (ds @ CHR '']'' # s') = rmatch r s'"
proof -
  from assms obtain d ds' where ds: "ds = d # ds'" and d: "is_digit d" and a: "list_all is_digit ds'"
    by (cases ds) (auto simp: digits_def)
  have dw: "dropWhile is_digit (ds' @ CHR '']'' # s') = CHR '']'' # s'"
    using a is_digit_not_bracket by (induction ds') auto
  show ?thesis
    using d by (simp add: ds rmatch_Star_Lit[of is_digit "CHR '']''", OF is_digit_not_bracket] dw)
qed

lemma rmatch_marker:
  assumes "digits ds"
  shows "rmatch (marker_items @ r) (marker_text ds @ s') = rmatch r s'"
proof -
  have "rmatch (marker_items @ r) (marker_text ds @ s')
      = rmatch (map Lit ''[IMAGE '' @ (Cls is_digit # Star is_digit # Lit CHR '']'' # r))
               (''[IMAGE '' @ (ds @ CHR '']'' # s'))"
    by (simp add: marker_items_def marker_text_def)
  also have "\<dots> = rmatch (Cls is_digit # Star is_digit # Lit CHR '']'' # r) (ds @ CHR '']'' # s')"
    by (subst rmatch_Lits) simp
  also have "\<dots> = rmatch r s'" by (rule rmatch_digits[OF assms])
  finally show ?thesis .
qed

lemma rmatch_marker_needs:
  assumes "rmatch (marker_items @ r) s = Some res"
  shows "\<exists>ds s'. digits ds \<and> s = marker_text ds @ s' \<and> rmatch r s' = Some res"
proof -
  have eq: "rmatch (marker_items @ r) s
      = rmatch (map Lit ''[IMAGE '' @ (Cls is_digit # Star is_digit # Lit CHR '']'' # r)) s"
    by (simp add: marker_items_def)
  have pre: "prefix ''[IMAGE '' s"
    and m1: "rmatch (Cls is_digit # Star is_digit # Lit CHR '']'' # r)
               (drop (length ''[IMAGE '') s) = Some res"
    using assms unfolding eq rmatch_Lits by (auto split: if_splits)
  from pre obtain t where s: "s = ''[IMAGE '' @ t" by (auto simp: prefix_def)
  have t: "drop (length ''[IMAGE '') s = t" by (simp add: s)
  from m1 obtain x xs where tx: "t = x # xs" and dx: "is_digit x"
    and m2: "rmatch (Star is_digit # Lit CHR '']'' # r) xs = Some res"
    unfolding t by (cases t) (auto split: if_splits)
  from m2 have m3: "rmatch (Lit CHR '']'' # r) (dropWhile is_digit xs) = Some res"
    by (simp only: rmatch_Star_Lit[of is_digit "CHR '']''", OF is_digit_not_bracket])
  then obtain s' where dw: "dropWhile is_digit xs = CHR '']'' # s'" and m4: "rmatch r s' = Some res"
    by (cases "dropWhile is_digit xs") (auto split: if_splits)
  have xs: "xs = takeWhile is_digit xs @ CHR '']'' # s'"
    using dw takeWhile_dropWhile_id[of is_digit xs] by simp
  define ds where "ds = x # takeWhile is_digit xs"
  have "digits ds" using dx by (auto simp: digits_def ds_def list_all_iff dest: set_takeWhileD)
  moreover have "s = marker_text ds @ s'"
    using xs by (simp add: s tx marker_text_def ds_def)
  ultimately show ?thesis using m4 by blast
qed

lemma breaks_marker_simps [simp]:
  "breaks_marker CHR ''[''" "breaks_marker CHR ''\<newline>''"
  by (simp_all add: breaks_marker_def is_digit_def)

lemma marker_text_tail:
  assumes "digits ds" and "c \<in> set (tl (marker_text ds))"
  shows "\<not> breaks_marker c"
  using assms by (auto simp: marker_text_def breaks_marker_def digits_def list_all_iff)

lemma rmatch_marker_no_straddle:
  assumes m: "rmatch (marker_items @ r) (q @ t) = Some res"
    and q: "q \<noteq> []" and t: "t = [] \<or> breaks_marker (hd t)"
  shows "\<exists>ds q'. digits ds \<and> q = marker_text ds @ q'"
proof -
  from rmatch_marker_needs[OF m] obtain ds s' where ds: "digits ds"
    and eq: "q @ t = marker_text ds @ s'" by blast
  from eq obtain u where u: "(q = marker_text ds @ u \<and> u @ t = s') \<or> (q @ u = marker_text ds \<and> t = u @ s')"
    by (auto simp: append_eq_append_conv2)
  show ?thesis
  proof (cases "q = marker_text ds @ u \<and> u @ t = s'")
    case True
    then show ?thesis using ds by blast
  next
    case False
    then have a: "q @ u = marker_text ds" and b: "t = u @ s'" using u by auto
    show ?thesis
    proof (cases "u = []")
      case True
      then have "q = marker_text ds @ []" using a by simp
      then show ?thesis using ds by blast
    next
      case False
      then have "t \<noteq> []" and "hd t = hd u" using b by auto
      moreover have "hd u \<in> set (tl (marker_text ds))"
        using a q False by (cases q) (auto simp: a[symmetric])
      ultimately show ?thesis using t marker_text_tail[OF ds] by auto
    qed
  qed
qed

lemma scan_skip:
  assumes "\<And>q. suffix q p \<Longrightarrow> q \<noteq> [] \<Longrightarrow> rmatch re (q @ t) = None"
  shows "scan re 0 (p @ t) = scan re 0 t"
  using assms
proof (induction p)
  case Nil
  then show ?case by simp
next
  case (Cons x p)
  have "rmatch re ((x # p) @ t) = None" using Cons(2)[of "x # p"] by simp
  moreover have "scan re 0 (p @ t) = scan re 0 t"
    using Cons(2) by (intro Cons(1)) (simp add: suffix_Cons)
  ultimately show ?case by simp
qed

lemma replace_skip:
  assumes "\<And>q. suffix q p \<Longrightarrow> q \<noteq> [] \<Longrightarrow> rmatch re (q @ t) = None"
  shows "replace_all re f 0 (p @ t) = p @ replace_all re f 0 t"
  using assms
proof (induction p)
  case Nil
  then show ?case by simp
next
  case (Cons x p)
  have "rmatch re ((x # p) @ t) = None" using Cons(2)[of "x # p"] by simp
  moreover have "replace_all re f 0 (p @ t) = p @ replace_all re f 0 t"
    using Cons(2) by (intro Cons(1)) (simp add: suffix_Cons)
  ultimately show ?case by simp
qed

lemma scan_drop: "scan re (length m) (m @ rest) = scan re 0 rest"
  by (induction m) simp_all


lemma scan_match:
  assumes "rmatch re (m @ rest) = Some (ms, rest)" and "m \<noteq> []"
  shows "scan re 0 (m @ rest) = (m @ rest, ms, rest) # scan re 0 rest"
proof -
  from assms(2) obtain x m' where m: "m = x # m'" by (cases m) auto
  show ?thesis using assms(1) scan_drop[of re m' rest] by (simp add: m)
qed


lemma scan_none:
  assumes "\<And>q. suffix q s \<Longrightarrow> rmatch re q = None"
  shows "scan re 0 s = []"
proof -
  have "scan re 0 (s @ []) = scan re 0 []"
    using assms by (intro scan_skip) simp
  then show ?thesis using assms[of "[]"] by simp
qed

lemma replace_none:
  assumes "\<And>q. suffix q s \<Longrightarrow> rmatch re q = None"
  shows "replace_all re f 0 s = s"
proof -
  have "replace_all re f 0 (s @ []) = s @ replace_all re f 0 []"
    using assms by (intro replace_skip) simp
  then show ?thesis using assms[of "[]"] by simp
qed

lemma scan_empty_suffix:
  "scan re 0 s = [] \<Longrightarrow> suffix q s \<Longrightarrow> rmatch re q = None"
proof (induction s)
  case Nil
  then show ?case by (auto split: option.splits)
next
  case (Cons x xs)
  from Cons(2) have a: "rmatch re (x # xs) = None" and b: "scan re 0 xs = []"
    by (auto split: option.splits)
  from Cons(3) have "q = x # xs \<or> suffix q xs" by (auto simp: suffix_Cons)
  then show ?case using a b Cons(1) Cons(3) by auto
qed

lemma count_list_suffix: "suffix q s \<Longrightarrow> count_list q c \<le> count_list s c"
  by (auto simp: suffix_def)

lemma rmatch_needs_newlines:
  assumes "count_list (lits re) c > count_list s c"
  shows "rmatch re s = None"
proof (cases "rmatch re s")
  case None
  then show ?thesis .
next
  case (Some a)
  obtain ms rest where "a = (ms, rest)" by (cases a)
  with Some rmatch_count[of re s ms rest c] assms show ?thesis by simp
qed

lemma scan_few:
  assumes "count_list (lits re) c > count_list s c"
  shows "scan re 0 s = []"
proof (rule scan_none)
  fix q assume "suffix q s"
  then have "count_list q c \<le> count_list s c" by (rule count_list_suffix)
  then show "rmatch re q = None" using assms by (intro rmatch_needs_newlines[of _ c]) simp
qed

lemma replace_few:
  assumes "count_list (lits re) c > count_list s c"
  shows "replace_all re f 0 s = s"
proof (rule replace_none)
  fix q assume "suffix q s"
  then have "count_list q c \<le> count_list s c" by (rule count_list_suffix)
  then show "rmatch re q = None" using assms by (intro rmatch_needs_newlines[of _ c]) simp
qed

text \<open>Prose without markers.\<close>

lemma rmatch_marker_nil:
  "digits ds \<Longrightarrow> rmatch marker_items (marker_text ds @ s') = Some ([], s')"
  using rmatch_marker[of ds "[]" s'] by simp

lemma markerRegex_marker_items:
  "rmatch markerRegex q = None \<longleftrightarrow> rmatch (marker_items @ []) q = None"
proof
  assume a: "rmatch markerRegex q = None"
  show "rmatch (marker_items @ []) q = None"
  proof (rule ccontr)
    assume "rmatch (marker_items @ []) q \<noteq> None"
    then obtain res where "rmatch (marker_items @ []) q = Some res" by auto
    from rmatch_marker_needs[OF this] obtain ds s' where "digits ds" "q = marker_text ds @ s'"
      by blast
    then have "rmatch (marker_items @ [Mark]) q = Some ([s'], s')"
      by (simp add: rmatch_marker)
    then show False using a by (simp add: markerRegex_def)
  qed
next
  assume a: "rmatch (marker_items @ []) q = None"
  show "rmatch markerRegex q = None"
  proof (rule ccontr)
    assume "rmatch markerRegex q \<noteq> None"
    then obtain res where "rmatch (marker_items @ [Mark]) q = Some res"
      by (auto simp: markerRegex_def split: option.splits)
    from rmatch_marker_needs[OF this] obtain ds s' where "digits ds" "q = marker_text ds @ s'"
      by blast
    then have "rmatch (marker_items @ []) q = Some ([], s')"
      by (simp add: rmatch_marker_nil)
    then show False using a by simp
  qed
qed

lemma prose_no_match:
  assumes "markers p = []" and "suffix q p" and "q \<noteq> []"
    and "t = [] \<or> breaks_marker (hd t)"
  shows "rmatch (marker_items @ r) (q @ t) = None"
proof (rule ccontr)
  assume "rmatch (marker_items @ r) (q @ t) \<noteq> None"
  then obtain res where "rmatch (marker_items @ r) (q @ t) = Some res" by auto
  from rmatch_marker_no_straddle[OF this assms(3,4)]
  obtain ds q' where ds: "digits ds" and q: "q = marker_text ds @ q'" by blast
  have "scan markerRegex 0 p = []" using assms(1) by (simp add: markers_def)
  then have "rmatch markerRegex q = None" using assms(2) by (rule scan_empty_suffix)
  then have "rmatch (marker_items @ []) q = None" by (simp only: markerRegex_marker_items)
  then show False using ds q by (simp add: rmatch_marker_nil)
qed

lemma markers_suffix:
  assumes "markers p = []" and "suffix q p"
  shows "markers q = []"
proof -
  have "scan markerRegex 0 p = []" using assms(1) by (simp add: markers_def)
  have "scan markerRegex 0 q = []"
  proof (rule scan_none)
    fix q' assume "suffix q' q"
    then have "suffix q' p" using assms(2) by (rule suffix_order.trans)
    with \<open>scan markerRegex 0 p = []\<close> show "rmatch markerRegex q' = None"
      by (rule scan_empty_suffix)
  qed
  then show ?thesis by (simp add: markers_def)
qed

lemma is_space_newline [simp]: "is_space CHR ''\<newline>''"
  by (simp add: is_space_def)

lemma star_nl_fail:
  assumes "\<forall>c\<in>set w. is_space c \<and> c \<noteq> CHR ''\<newline>''" and "\<not> is_space x"
  shows "rmatch (Star is_space # Lit CHR ''\<newline>'' # r) (w @ x # t) = None"
  using assms(1)
proof (induction w)
  case Nil
  have "x \<noteq> CHR ''\<newline>''" using assms(2) by auto
  then show ?case using assms(2) by simp
next
  case (Cons y w)
  then show ?case by simp
qed

lemma star_nl_shape:
  "rmatch [Star is_space, Lit CHR ''\<newline>''] s = Some (ms, rest') \<Longrightarrow>
     ms = [] \<and> (\<exists>w. s = w @ CHR ''\<newline>'' # rest' \<and> (\<forall>c\<in>set w. is_space c))"
proof (induction s)
  case Nil
  then show ?case by simp
next
  case (Cons x xs)
  show ?case
  proof (cases "is_space x \<and> rmatch [Star is_space, Lit CHR ''\<newline>''] xs \<noteq> None")
    case True
    then have "rmatch [Star is_space, Lit CHR ''\<newline>''] xs = Some (ms, rest')"
      using Cons(2) by (auto split: option.splits)
    from Cons(1)[OF this] obtain w where "ms = []" "xs = w @ CHR ''\<newline>'' # rest'"
      "\<forall>c\<in>set w. is_space c" by blast
    then have "x # xs = (x # w) @ CHR ''\<newline>'' # rest' \<and> (\<forall>c\<in>set (x # w). is_space c)"
      using True by simp
    then show ?thesis using \<open>ms = []\<close> by blast
  next
    case False
    then have "rmatch [Lit CHR ''\<newline>''] (x # xs) = Some (ms, rest')"
      using Cons(2) by (auto split: option.splits if_splits)
    then have "x = CHR ''\<newline>''" "ms = []" "rest' = xs" by (auto split: if_splits)
    then have "x # xs = [] @ CHR ''\<newline>'' # rest'" by simp
    then show ?thesis using \<open>ms = []\<close> by (metis empty_iff empty_set)
  qed
qed

lemma star_nl_hit:
  assumes "\<forall>c\<in>set b. is_space c"
  shows "\<exists>w rest'. rmatch [Star is_space, Lit CHR ''\<newline>''] (b @ CHR ''\<newline>'' # rest)
            = Some ([], rest')
         \<and> rest = w @ rest' \<and> (\<forall>c\<in>set w. is_space c)"
  using assms
proof (induction b)
  case Nil
  show ?case
  proof (cases "rmatch [Star is_space, Lit CHR ''\<newline>''] rest")
    case None
    then have "rmatch [Star is_space, Lit CHR ''\<newline>''] ([] @ CHR ''\<newline>'' # rest) = Some ([], rest)"
      by simp
    moreover have "rest = [] @ rest \<and> (\<forall>c\<in>set []. is_space c)" by simp
    ultimately show ?thesis by blast
  next
    case (Some a)
    obtain ms rest' where a: "a = (ms, rest')" by (cases a)
    from star_nl_shape[OF Some[unfolded a]] obtain w where w: "ms = []"
      "rest = w @ CHR ''\<newline>'' # rest'" "\<forall>c\<in>set w. is_space c" by blast
    have "rmatch [Star is_space, Lit CHR ''\<newline>''] ([] @ CHR ''\<newline>'' # rest) = Some ([], rest')"
      using Some a w(1) by simp
    moreover have "rest = (w @ [CHR ''\<newline>'']) @ rest' \<and> (\<forall>c\<in>set (w @ [CHR ''\<newline>'']). is_space c)"
      using w by simp
    ultimately show ?thesis by blast
  qed
next
  case (Cons y b)
  then obtain w rest' where
    ih: "rmatch [Star is_space, Lit CHR ''\<newline>''] (b @ CHR ''\<newline>'' # rest) = Some ([], rest')"
      "rest = w @ rest'" "\<forall>c\<in>set w. is_space c" by auto
  have "rmatch [Star is_space, Lit CHR ''\<newline>''] ((y # b) @ CHR ''\<newline>'' # rest) = Some ([], rest')"
    using ih(1) Cons(2) by simp
  then show ?case using ih(2,3) by blast
qed

lemma lazy_hit: "rmatch r s = Some m \<Longrightarrow> rmatch (Lazy P # r) s = Some m"
  by (cases s) simp_all

lemma lazy_skip:
  assumes "\<forall>c\<in>set a. P c"
    and "\<And>q. suffix q a \<Longrightarrow> q \<noteq> [] \<Longrightarrow> rmatch r (q @ s2) = None"
  shows "rmatch (Lazy P # r) (a @ s2) = rmatch (Lazy P # r) s2"
  using assms
proof (induction a)
  case Nil
  then show ?case by simp
next
  case (Cons x a)
  have "rmatch r ((x # a) @ s2) = None" using Cons(3)[of "x # a"] by simp
  moreover have "rmatch (Lazy P # r) (a @ s2) = rmatch (Lazy P # r) s2"
    using Cons(2,3) by (intro Cons(1)) (simp_all add: suffix_Cons)
  ultimately show ?case using Cons(2) by simp
qed

text \<open>A text with a character that is not whitespace starts with whitespace and then such
  a character.\<close>

lemma first_non_space:
  assumes "\<exists>c\<in>set q. \<not> is_space c"
  shows "\<exists>w x t. q = w @ x # t \<and> (\<forall>c\<in>set w. is_space c) \<and> \<not> is_space x"
proof -
  have "dropWhile is_space q \<noteq> []" using assms by (simp add: dropWhile_eq_Nil_conv)
  then obtain x t where d: "dropWhile is_space q = x # t" by (cases "dropWhile is_space q") auto
  then have "\<not> is_space x" using hd_dropWhile[of is_space q] by auto
  moreover have "q = takeWhile is_space q @ x # t" using d takeWhile_dropWhile_id[of is_space q]
    by simp
  moreover have "\<forall>c\<in>set (takeWhile is_space q). is_space c" by (auto dest: set_takeWhileD)
  ultimately show ?thesis by blast
qed

lemma mark_star_nl_fail:
  assumes "\<forall>c\<in>set q. is_dot c" and "\<exists>c\<in>set q. \<not> is_space c"
  shows "rmatch (Star is_space # Lit CHR ''\<newline>'' # r) (q @ s) = None"
proof -
  from first_non_space[OF assms(2)] obtain w x t where
    q: "q = w @ x # t" and w: "\<forall>c\<in>set w. is_space c" and x: "\<not> is_space x" by blast
  have "\<forall>c\<in>set w. is_space c \<and> c \<noteq> CHR ''\<newline>''"
    using w assms(1) by (auto simp: q is_dot_def)
  from star_nl_fail[OF this x, of r "t @ s"] show ?thesis by (simp add: q)
qed

text \<open>A prompt line splits into its text and the whitespace that ends it.\<close>

lemma split_trailing_space:
  assumes "\<exists>c\<in>set q. \<not> is_space c"
  shows "\<exists>a b. q = a @ b \<and> (\<forall>c\<in>set b. is_space c) \<and> a \<noteq> [] \<and> \<not> is_space (last a)"
proof -
  have "\<exists>c\<in>set (rev q). \<not> is_space c" using assms by simp
  from first_non_space[OF this] obtain w x t where
    r: "rev q = w @ x # t" and w: "\<forall>c\<in>set w. is_space c" and x: "\<not> is_space x" by blast
  have "q = rev (w @ x # t)" using r by (metis rev_rev_ident)
  then have "q = (rev t @ [x]) @ rev w" by simp
  moreover have "\<forall>c\<in>set (rev w). is_space c" using w by simp
  moreover have "rev t @ [x] \<noteq> [] \<and> \<not> is_space (last (rev t @ [x]))" using x by simp
  ultimately show ?thesis by blast
qed

lemma trim_trailing:
  assumes "\<forall>c\<in>set b. is_space c" and "a \<noteq> []" and "\<not> is_space (last a)"
  shows "trim (a @ b) = trim a"
proof -
  have ex: "\<exists>c\<in>set a. \<not> is_space c" using assms(2,3) last_in_set by blast
  from ex obtain c where c: "c \<in> set a" "\<not> is_space c" by blast
  have 1: "dropWhile is_space (a @ b) = dropWhile is_space a @ b"
    using c by (rule dropWhile_append1)
  have 2: "dropWhile is_space (rev b @ rev (dropWhile is_space a))
      = dropWhile is_space (rev (dropWhile is_space a))"
    using assms(1) by (intro dropWhile_append2) simp
  show ?thesis by (simp add: trim_def 1 2)
qed

lemma suffix_last_non_space:
  assumes "suffix q' a" and "q' \<noteq> []" and "\<not> is_space (last a)"
  shows "\<exists>c\<in>set q'. \<not> is_space c"
proof -
  from assms(1) obtain u where "a = u @ q'" by (auto simp: suffix_def)
  then have "last a = last q'" using assms(2) by simp
  then show ?thesis using assms(2,3) last_in_set by metis
qed

lemma promptRegex_tail: "promptRegex = marker_items @ prompt_tail"
  by (simp add: promptRegex_def prompt_tail_def)

lemma prompt_tail_match:
  assumes "prompt_line q"
  shows "\<exists>w rest' ms. rmatch prompt_tail (CHR ''\<newline>'' # q @ CHR ''\<newline>'' # rest) = Some (ms, rest')
      \<and> trim (group1 ms) = trim q \<and> rest = w @ rest' \<and> (\<forall>c\<in>set w. is_space c)"
proof -
  have dots: "\<forall>c\<in>set q. is_dot c" and ns: "\<exists>c\<in>set q. \<not> is_space c"
    using assms by (auto simp: prompt_line_def list_all_iff list_ex_iff)
  from split_trailing_space[OF ns] obtain a b where
    q: "q = a @ b" and b: "\<forall>c\<in>set b. is_space c" and a: "a \<noteq> []" "\<not> is_space (last a)"
    by blast
  let ?s2 = "b @ CHR ''\<newline>'' # rest"
  let ?r2 = "[Mark, Star is_space, Lit CHR ''\<newline>'']"
  from star_nl_hit[OF b, of rest] obtain w rest' where
    hit: "rmatch [Star is_space, Lit CHR ''\<newline>''] ?s2 = Some ([], rest')"
    and w: "rest = w @ rest'" "\<forall>c\<in>set w. is_space c" by blast
  have m2: "rmatch ?r2 ?s2 = Some ([?s2], rest')" using hit by simp
  have skip: "rmatch (Lazy is_dot # ?r2) (a @ ?s2) = rmatch (Lazy is_dot # ?r2) ?s2"
  proof (rule lazy_skip)
    show "\<forall>c\<in>set a. is_dot c" using dots by (simp add: q)
  next
    fix q' assume s: "suffix q' a" and ne: "q' \<noteq> []"
    have d': "\<forall>c\<in>set q'. is_dot c"
      using s dots by (auto simp: q suffix_def)
    have "rmatch (Star is_space # Lit CHR ''\<newline>'' # []) (q' @ ?s2) = None"
      by (rule mark_star_nl_fail[OF d' suffix_last_non_space[OF s ne a(2)]])
    then show "rmatch ?r2 (q' @ ?s2) = None" by simp
  qed
  have lazy: "rmatch (Lazy is_dot # ?r2) (q @ CHR ''\<newline>'' # rest) = Some ([?s2], rest')"
    using skip lazy_hit[OF m2, of is_dot] by (simp add: q)
  have first: "rmatch (Star is_space # Lit CHR ''\<newline>'' # Mark # Lazy is_dot # ?r2)
                  (q @ CHR ''\<newline>'' # rest) = None"
    by (rule mark_star_nl_fail[OF dots ns])
  have "rmatch prompt_tail (CHR ''\<newline>'' # q @ CHR ''\<newline>'' # rest)
      = Some ([q @ CHR ''\<newline>'' # rest, ?s2], rest')"
    unfolding prompt_tail_def using first lazy by simp
  moreover have "group1 [q @ CHR ''\<newline>'' # rest, ?s2] = a"
    by (simp add: between_def q)
  moreover have "trim a = trim q" using trim_trailing[OF b a] by (simp add: q)
  ultimately show ?thesis using w by auto
qed

lemma block_match:
  assumes "digits ds" and "prompt_line q"
  shows "\<exists>w rest' ms.
      rmatch promptRegex (marker_text ds @ CHR ''\<newline>'' # q @ CHR ''\<newline>'' # rest) = Some (ms, rest')
      \<and> trim (group1 ms) = trim q \<and> rest = w @ rest' \<and> (\<forall>c\<in>set w. is_space c)"
  using prompt_tail_match[OF assms(2), of rest]
  by (simp add: promptRegex_tail rmatch_marker[OF assms(1)])

lemma script_head: "script bs @ e = [] \<or> hd (script bs @ e) = CHR ''['' \<or> bs = []"
  by (cases bs) (auto simp: marker_text_def)

lemma count_lits_promptRegex: "count_list (lits promptRegex) CHR ''\<newline>'' = 2"
  by (simp add: promptRegex_def marker_items_def)

lemma space_prefix_of_prose:
  assumes "w @ rest' = p @ x" and "\<forall>c\<in>set w. is_space c" and "x = [] \<or> \<not> is_space (hd x)"
  shows "\<exists>p'. p = w @ p' \<and> rest' = p' @ x"
proof -
  from assms(1) obtain u where u: "(w = p @ u \<and> u @ rest' = x) \<or> (w @ u = p \<and> rest' = u @ x)"
    by (auto simp: append_eq_append_conv2)
  show ?thesis
  proof (cases "w @ u = p \<and> rest' = u @ x")
    case True
    then show ?thesis by blast
  next
    case False
    then have a: "w = p @ u" and b: "u @ rest' = x" using u by auto
    have "u = []"
    proof (rule ccontr)
      assume "u \<noteq> []"
      then have "x \<noteq> []" "hd x = hd u" "hd u \<in> set w" using a b by auto
      then show False using assms(2,3) by auto
    qed
    then show ?thesis using a b by simp
  qed
qed

lemma not_space_bracket: "\<not> is_space CHR ''[''"
  by (simp add: is_space_def)

lemma scan_script:
  assumes "markers p0 = []" and "list_all well_formed bs"
    and "CHR ''\<newline>'' \<notin> set e" and "e = [] \<or> hd e = CHR ''[''"
  shows "map (\<lambda>(s, ms, rest). trim (group1 ms)) (scan promptRegex 0 (p0 @ script bs @ e))
           = prompts_of bs"
  using assms(1,2)
proof (induction bs arbitrary: p0)
  case Nil
  have br: "e = [] \<or> breaks_marker (hd e)" using assms(4) by auto
  have "scan promptRegex 0 (p0 @ e) = scan promptRegex 0 e"
  proof (rule scan_skip)
    fix q assume "suffix q p0" "q \<noteq> []"
    then show "rmatch promptRegex (q @ e) = None"
      unfolding promptRegex_tail using Nil(1) br by (intro prose_no_match)
  qed
  moreover have "scan promptRegex 0 e = []"
  proof (rule scan_few[of _ "CHR ''\<newline>''"])
    show "count_list e CHR ''\<newline>'' < count_list (lits promptRegex) CHR ''\<newline>''"
      using assms(3) by (simp add: count_lits_promptRegex)
  qed
  ultimately show ?case by (simp add: prompts_of_def)
next
  case (Cons blk bs)
  obtain ds q p where blk: "blk = (ds, q, p)" by (cases blk)
  from Cons(3) have wfb: "well_formed blk" and wfs: "list_all well_formed bs" by simp_all
  from wfb have wf: "digits ds" "prompt_line q" "markers p = []"
    by (simp_all add: blk well_formed_def)
  let ?x = "script bs @ e"
  let ?rest = "p @ ?x"
  let ?blk = "marker_text ds @ CHR ''\<newline>'' # q @ CHR ''\<newline>'' # ?rest"
  have tx: "p0 @ script (blk # bs) @ e = p0 @ ?blk" by (simp add: blk)
  have hdb: "breaks_marker (hd ?blk)" by (simp add: marker_text_def)
  have skip: "scan promptRegex 0 (p0 @ ?blk) = scan promptRegex 0 ?blk"
  proof (rule scan_skip)
    fix q' assume "suffix q' p0" "q' \<noteq> []"
    then show "rmatch promptRegex (q' @ ?blk) = None"
      unfolding promptRegex_tail using Cons(2) hdb by (intro prose_no_match) auto
  qed
  from block_match[OF wf(1,2), of ?rest] obtain w rest' ms where
    m: "rmatch promptRegex ?blk = Some (ms, rest')" and g: "trim (group1 ms) = trim q"
    and r: "?rest = w @ rest'" and w: "\<forall>c\<in>set w. is_space c" by blast
  have xh: "?x = [] \<or> \<not> is_space (hd ?x)"
    using script_head[of bs e] assms(4) not_space_bracket by auto
  from space_prefix_of_prose[OF r[symmetric] w xh] obtain p' where
    p': "p = w @ p'" "rest' = p' @ ?x" by blast
  have "suffix p' p" by (simp add: p'(1) suffix_def)
  then have mp': "markers p' = []" using wf(3) markers_suffix by blast
  let ?m = "marker_text ds @ CHR ''\<newline>'' # q @ CHR ''\<newline>'' # w"
  have split: "?blk = ?m @ rest'" by (simp add: p')
  have mne: "?m \<noteq> []" by (simp add: marker_text_def)
  have "scan promptRegex 0 (?m @ rest') = (?m @ rest', ms, rest') # scan promptRegex 0 rest'"
    using m mne unfolding split by (rule scan_match)
  then have sc: "scan promptRegex 0 ?blk = (?blk, ms, rest') # scan promptRegex 0 (p' @ script bs @ e)"
    unfolding split[symmetric] by (simp add: p'(2))
  show ?case
    unfolding tx skip sc using g Cons(1)[OF mp' wfs]
    by (simp add: prompts_of_def blk)
qed

lemma digits_no_newline: "digits ds \<Longrightarrow> CHR ''\<newline>'' \<notin> set (marker_text ds)"
  by (auto simp: digits_def marker_text_def list_all_iff is_digit_def)

text \<open>
  What the extractor does find: in a text made of prose without markers and of
  well-formed blocks, each with the line break after its prompt line, it returns the
  prompts of all blocks, trimmed, in document order, and a marker at the end of the text
  that no prompt line follows is not matched.
\<close>

lemma extractPrompts_script:
  assumes "markers p0 = []" and "list_all well_formed bs"
  shows "extractPrompts (p0 @ script bs) = prompts_of bs
       \<and> length (extractPrompts (p0 @ script bs)) = length bs
       \<and> (digits ds \<longrightarrow> extractPrompts (p0 @ script bs @ marker_text ds) = prompts_of bs)"
proof -
  have a: "extractPrompts (p0 @ script bs) = prompts_of bs"
    using scan_script[OF assms, of "[]"] by (simp add: extractPrompts_def)
  have b: "digits ds \<longrightarrow> extractPrompts (p0 @ script bs @ marker_text ds) = prompts_of bs"
  proof
    assume d: "digits ds"
    have "hd (marker_text ds) = CHR ''[''" by (simp add: marker_text_def)
    then show "extractPrompts (p0 @ script bs @ marker_text ds) = prompts_of bs"
      using scan_script[OF assms digits_no_newline[OF d]] by (simp add: extractPrompts_def)
  qed
  show ?thesis using a b by (simp add: prompts_of_def)
qed

text \<open>
  C5 fails on the code.  The handler trims the rewritten text, so a cue block that ends
  the text has no line break after its prompt line, and all three regular expressions
  ask for one.  For the response "Intro. / [IMAGE 1] / A golden lion." the block is well
  formed, yet no prompt is extracted, the image pipeline is not enabled, and the cue and
  its prompt stay in the text sent to speech synthesis and in the text on display.
\<close>

theorem final_cue_not_extracted:
  "trim final_cue_response = final_cue_text
   \<and> extractPrompts final_cue_text = []
   \<and> stripBoth final_cue_text = final_cue_text
   \<and> stripPromptLines final_cue_text = final_cue_text
   \<and> belfortText (final (handleGenerateSpeech final_cue_env sample_speech_state))
       = Some final_cue_text
   \<and> \<not> hasImagePrompts (final (handleGenerateSpeech final_cue_env sample_speech_state))
   \<and> imagePrompts (final (handleGenerateSpeech final_cue_env sample_speech_state)) = []
   \<and> last (log (handleGenerateSpeech final_cue_env sample_speech_state))
       = GenerateContent \<lparr>model = tts_model, contents = say_prompt final_cue_text\<rparr>"
proof -
  have t: "trim final_cue_response = final_cue_text"
    by (simp add: final_cue_response_def final_cue_text_def trim_def is_space_def)
  have e: "extractPrompts final_cue_text = []"
    by (simp add: final_cue_text_def extractPrompts_def promptRegex_def marker_items_def
        is_digit_def is_space_def is_dot_def)
  have b: "stripBoth final_cue_text = final_cue_text"
    by (simp add: final_cue_text_def stripBoth_def speechRegex_def marker_items_def
        is_digit_def is_space_def is_dot_def)
  have d: "stripPromptLines final_cue_text = final_cue_text"
    by (simp add: final_cue_text_def stripPromptLines_def displayRegex_def marker_items_def
        is_digit_def is_space_def is_dot_def)
  have i: "trim (textInput sample_speech_state) \<noteq> []"
    by (simp add: sample_speech_state_def trim_def is_space_def)
  have run: "handleGenerateSpeech final_cue_env sample_speech_state =
      (let st1 = sample_speech_state\<lparr>isLoading := True, error := None,
                       generatedAudio := \<lparr>original = None, belfort = None\<rparr>,
                       belfortText := None, hasImagePrompts := False\<rparr>;
           (res, evs) = speech_try final_cue_env st1;
           st5 = (case res of
                    Inr st' \<Rightarrow> st'
                  | Inl (st', e) \<Rightarrow>
                      st'\<lparr>error := Some (''An error occurred: '' @ message_of e)\<rparr>)
       in \<lparr>final = st5\<lparr>isLoading := False\<rparr>, log = evs\<rparr>)"
    using i by (simp add: handleGenerateSpeech_def final_cue_env_def sample_speech_env_def)
  show ?thesis
    unfolding run
    by (simp add: t e b d speech_try_def speech_decode_def Let_def final_cue_env_def
        sample_speech_env_def sample_speech_state_def inline_audio_def first_part_def
        blocked_response_def audio_response_def)
qed







lemma count_lits_displayRegex: "count_list (lits displayRegex) CHR ''\<newline>'' = 2"
  by (simp add: displayRegex_def marker_items_def)








end
